theory Spec2Isabelle
  imports Complex_Main "HOL-Library.Char_ord" "HOL-Library.Sublist"
begin

section \<open>Python values shared by the modules\<close>

text \<open>
  Python's unbounded integers are \<open>int\<close>. Python's floats are modelled by \<open>real\<close>:
  comparisons against the literals \<open>0.3\<close> and \<open>0.7\<close> are comparisons against
  those reals, and the rounding of float arithmetic is not modelled, except in the one
  division of an integer of any size (\<open>half_as_float\<close> below). Strings are
  \<open>string\<close>, lists of 8-bit characters, read as the code points 0 to 255: the model
  covers the texts of those characters (ASCII and Latin-1); the string operations below
  are Python's on that range. A text with a character beyond it is outside the model.
  An exception is a value of \<open>py_error\<close>, and a computation that may raise returns
  \<open>py_error + 'a\<close>.
\<close>

datatype py_error =
    ZeroDivisionError string
  | OverflowError string
  | KeyError string
  | ValueError string
  | IndexError string
  | ProviderError string

text \<open>\<open>str(e)\<close>\<close>

fun error_message :: "py_error \<Rightarrow> string" where
  "error_message (ZeroDivisionError msg) = msg"
| "error_message (OverflowError msg) = msg"
| "error_message (KeyError k) = [CHR 0x27] @ k @ [CHR 0x27]"
| "error_message (ValueError msg) = msg"
| "error_message (IndexError msg) = msg"
| "error_message (ProviderError msg) = msg"

definition err_bind :: "py_error + 'a \<Rightarrow> ('a \<Rightarrow> py_error + 'b) \<Rightarrow> py_error + 'b" where
  "err_bind x f = (case x of Inl e \<Rightarrow> Inl e | Inr v \<Rightarrow> f v)"

text \<open>
  True division \<open>a / b\<close>, which raises on a zero divisor: \<open>py_truediv\<close> for two
  integers, \<open>py_float_truediv\<close> when an operand is a float. They differ in the message.
\<close>

definition py_truediv :: "real \<Rightarrow> real \<Rightarrow> py_error + real" where
  "py_truediv a b = (if b = 0 then Inl (ZeroDivisionError ''division by zero'') else Inr (a / b))"

definition py_float_truediv :: "real \<Rightarrow> real \<Rightarrow> py_error + real" where
  "py_float_truediv a b =
     (if b = 0 then Inl (ZeroDivisionError ''float division by zero'') else Inr (a / b))"

text \<open>\<open>int.bit_length()\<close> of a natural number.\<close>

function bit_length :: "nat \<Rightarrow> nat" where
  "bit_length n = (if n = 0 then 0 else Suc (bit_length (n div 2)))"
  by pat_completeness auto
termination
  by (relation "measure id") auto

declare bit_length.simps [simp del]

text \<open>
  \<open>b / 2\<close> for an integer \<open>b\<close> of any size: the quotient as a double, which has 53
  significant bits. Up to 53 bits the quotient is exact; a longer \<open>b\<close> is rounded to
  the nearest double, a tie to the even one, and a quotient of \<open>2 ** 1024\<close> or more
  raises \<open>OverflowError\<close>.
\<close>

definition half_as_float :: "int \<Rightarrow> py_error + real" where
  "half_as_float b =
     (let a = nat \<bar>b\<bar>; k = bit_length a
      in if k \<le> 53 then Inr (of_int b / 2)
         else
           let e = k - 53; q = a div 2 ^ e; r = a mod 2 ^ e;
               mantissa = (if 2 * r > 2 ^ e \<or> (2 * r = 2 ^ e \<and> odd q) then q + 1 else q)
           in if mantissa * 2 ^ (e - 1) \<ge> 2 ^ 1024
              then Inl (OverflowError ''integer division result too large for a float'')
              else Inr (of_int (sgn b * int (mantissa * 2 ^ (e - 1)))))"

text \<open>\<open>round(x)\<close>: to the nearest integer, a tie to the even one.\<close>

definition py_round :: "real \<Rightarrow> int" where
  "py_round x =
     (let f = \<lfloor>x\<rfloor>; d = x - of_int f
      in if d < 1/2 then f else if d > 1/2 then f + 1 else if even f then f else f + 1)"

text \<open>\<open>x or y\<close> on an optional integer: \<open>None\<close> and \<open>0\<close> are false.\<close>

definition py_or :: "int option \<Rightarrow> int \<Rightarrow> int" where
  "py_or x y = (case x of None \<Rightarrow> y | Some v \<Rightarrow> if v = 0 then y else v)"

subsection \<open>Strings\<close>

definition ascii_uppercase :: string where
  "ascii_uppercase = ''ABCDEFGHIJKLMNOPQRSTUVWXYZ''"

definition ascii_lowercase :: string where
  "ascii_lowercase = ''abcdefghijklmnopqrstuvwxyz''"

definition ascii_digits :: string where
  "ascii_digits = ''0123456789''"

text \<open>
  The capital letters of Latin-1, 0xC0 to 0xDE without the multiplication sign 0xD7, and
  their small letters, 0x20 above them.
\<close>

definition latin1_uppercase :: string where
  "latin1_uppercase =
     [CHR 0xC0, CHR 0xC1, CHR 0xC2, CHR 0xC3, CHR 0xC4, CHR 0xC5, CHR 0xC6, CHR 0xC7,
      CHR 0xC8, CHR 0xC9, CHR 0xCA, CHR 0xCB, CHR 0xCC, CHR 0xCD, CHR 0xCE, CHR 0xCF,
      CHR 0xD0, CHR 0xD1, CHR 0xD2, CHR 0xD3, CHR 0xD4, CHR 0xD5, CHR 0xD6,
      CHR 0xD8, CHR 0xD9, CHR 0xDA, CHR 0xDB, CHR 0xDC, CHR 0xDD, CHR 0xDE]"

definition latin1_lowercase :: string where
  "latin1_lowercase =
     [CHR 0xE0, CHR 0xE1, CHR 0xE2, CHR 0xE3, CHR 0xE4, CHR 0xE5, CHR 0xE6, CHR 0xE7,
      CHR 0xE8, CHR 0xE9, CHR 0xEA, CHR 0xEB, CHR 0xEC, CHR 0xED, CHR 0xEE, CHR 0xEF,
      CHR 0xF0, CHR 0xF1, CHR 0xF2, CHR 0xF3, CHR 0xF4, CHR 0xF5, CHR 0xF6,
      CHR 0xF8, CHR 0xF9, CHR 0xFA, CHR 0xFB, CHR 0xFC, CHR 0xFD, CHR 0xFE]"

text \<open>\<open>str.lower()\<close>: the 26 capital letters of ASCII and the 30 of Latin-1 change.\<close>

definition lower_char :: "char \<Rightarrow> char" where
  "lower_char c =
     (case map_of (zip (ascii_uppercase @ latin1_uppercase) (ascii_lowercase @ latin1_lowercase)) c of
        Some d \<Rightarrow> d
      | None \<Rightarrow> c)"

definition lower :: "string \<Rightarrow> string" where
  "lower s = map lower_char s"

text \<open>
  The characters \<open>str.split()\<close> and \<open>str.strip()\<close> treat as whitespace: tab, line
  feed, vertical tab, form feed, carriage return, the four separators 0x1C..0x1F, the
  space, the next-line control 0x85 and the no-break space 0xA0.
\<close>

definition whitespace :: string where
  "whitespace = [CHR 0x09, CHR 0x0A, CHR 0x0B, CHR 0x0C, CHR 0x0D,
                 CHR 0x1C, CHR 0x1D, CHR 0x1E, CHR 0x1F, CHR 0x20, CHR 0x85, CHR 0xA0]"

text \<open>\<open>str.split()\<close> with no argument: maximal runs of non-whitespace characters.\<close>

fun split_acc :: "string \<Rightarrow> string \<Rightarrow> string list" where
  "split_acc [] w = (if w = [] then [] else [w])"
| "split_acc (c # cs) w =
     (if c \<in> set whitespace
      then (if w = [] then split_acc cs [] else w # split_acc cs [])
      else split_acc cs (w @ [c]))"

definition split :: "string \<Rightarrow> string list" where
  "split s = split_acc s []"

text \<open>\<open>str.strip()\<close>\<close>

definition strip :: "string \<Rightarrow> string" where
  "strip s = rev (dropWhile (\<lambda>c. c \<in> set whitespace) (rev (dropWhile (\<lambda>c. c \<in> set whitespace) s)))"

text \<open>\<open>sep.join(xs)\<close>\<close>

fun join :: "string \<Rightarrow> string list \<Rightarrow> string" where
  "join sep [] = []"
| "join sep [x] = x"
| "join sep (x # y # ys) = x @ sep @ join sep (y # ys)"

text \<open>\<open>sub in s\<close> is \<^term>\<open>sublist sub s\<close>; \<open>any(k in s for k in ks)\<close>:\<close>

definition any_in :: "string list \<Rightarrow> string \<Rightarrow> bool" where
  "any_in ks s = list_ex (\<lambda>k. sublist k s) ks"

text \<open>
  \<open>s.count(sub)\<close> for a non-empty \<open>sub\<close>: the occurrences found from left to right,
  each search resuming after the end of the previous occurrence. The second argument
  is the number of characters still covered by the last occurrence.
\<close>

fun count_from :: "string \<Rightarrow> nat \<Rightarrow> string \<Rightarrow> nat" where
  "count_from sub k [] = 0"
| "count_from sub (Suc k) (c # cs) = count_from sub k cs"
| "count_from sub 0 (c # cs) =
     (if prefix sub (c # cs) then Suc (count_from sub (length sub - 1) cs)
      else count_from sub 0 cs)"

definition count :: "string \<Rightarrow> string \<Rightarrow> nat" where
  "count s sub = count_from sub 0 s"

text \<open>\<open>s[:n]\<close> for a list and an integer bound.\<close>

definition slice_to :: "'a list \<Rightarrow> int \<Rightarrow> 'a list" where
  "slice_to xs n = (if 0 \<le> n then take (nat n) xs else take (length xs - nat (- n)) xs)"

text \<open>\<open>xs.index(x)\<close>, which raises \<open>ValueError\<close> when \<open>x\<close> is absent.\<close>

fun index :: "'a list \<Rightarrow> 'a \<Rightarrow> py_error + int" where
  "index [] x = Inl (ValueError ''x is not in list'')"
| "index (y # ys) x = (if y = x then Inr 0 else err_bind (index ys x) (\<lambda>i. Inr (i + 1)))"

text \<open>
  \<open>int(s)\<close> for the strings the regular expressions capture: a non-empty string of
  decimal digits is its value, anything else is a \<open>ValueError\<close> of the model (signs,
  underscores and surrounding blanks, which Python would also accept, never reach it).
\<close>

definition digit_value :: "char \<Rightarrow> int" where
  "digit_value c = (case map_of (zip ascii_digits [0, 1, 2, 3, 4, 5, 6, 7, 8, 9]) c of
                      Some v \<Rightarrow> v | None \<Rightarrow> 0)"

definition py_int :: "string \<Rightarrow> py_error + int" where
  "py_int s = (if s \<noteq> [] \<and> list_all (\<lambda>c. c \<in> set ascii_digits) s
               then Inr (foldl (\<lambda>n c. 10 * n + digit_value c) 0 s)
               else Inl (ValueError (''invalid literal for int() with base 10: '' @ s)))"

text \<open>\<open>str(n)\<close> for an integer.\<close>

function str_nat :: "nat \<Rightarrow> string" where
  "str_nat n = (if n < 10 then [ascii_digits ! n] else str_nat (n div 10) @ [ascii_digits ! (n mod 10)])"
  by pat_completeness auto
termination
  by (relation "measure id") auto

declare str_nat.simps [simp del]

definition str_int :: "int \<Rightarrow> string" where
  "str_int i = (if i < 0 then ''-'' @ str_nat (nat (- i)) else str_nat (nat i))"

section \<open>The regular expressions of module re\<close>

text \<open>
  The patterns of the source use literals, character classes, \<open>.\<close>, greedy and lazy
  repetition of a single-character item, sequence, alternation and capture groups.
  Matching is Python's backtracking search: alternatives in order, a greedy repetition
  longest first, a lazy one shortest first; the first complete match wins. The matcher
  is written with a continuation for the rest of the pattern, which is where
  backtracking re-enters. A case-insensitive pattern compares literals after
  \<^const>\<open>lower_char\<close>; the classes of those patterns contain no letters. On the
  characters of the model, the code points 0 to 255, this is the comparison \<open>(?i)\<close>
  makes, \<open>\d\<close> is the ten ASCII digits and \<open>.\<close> is every character but the line
  feed. Beyond that range \<open>(?i)\<close> also takes U+0130 and U+0131 for \<open>i\<close>, U+017F for
  \<open>s\<close> and U+212A for \<open>k\<close>, and \<open>\d\<close> takes the digits of other scripts; texts
  with such characters are not values of \<open>string\<close>.
\<close>

datatype atom = AnyChar | OneOf string

fun accepts :: "atom \<Rightarrow> char \<Rightarrow> bool" where
  "accepts AnyChar c = (c \<noteq> CHR 0x0A)"
| "accepts (OneOf cs) c = (c \<in> set cs)"

datatype regex =
    Lit string
  | Ch atom
  | Greedy atom nat "nat option"
  | Lazy atom nat "nat option"
  | Seq regex regex
  | Alt regex regex
  | Group regex

type_synonym groups = "string list"
type_synonym cont = "string \<Rightarrow> groups \<Rightarrow> (string \<times> groups) option"

fun lit_match :: "bool \<Rightarrow> string \<Rightarrow> string \<Rightarrow> string option" where
  "lit_match ic [] s = Some s"
| "lit_match ic (p # ps) [] = None"
| "lit_match ic (p # ps) (c # cs) =
     (if (if ic then lower_char p = lower_char c else p = c) then lit_match ic ps cs else None)"

definition dec :: "nat option \<Rightarrow> nat option" where
  "dec mx = map_option (\<lambda>n. n - 1) mx"

fun rep_greedy ::
  "atom \<Rightarrow> nat \<Rightarrow> nat option \<Rightarrow> string \<Rightarrow> (string \<Rightarrow> 'r option) \<Rightarrow> 'r option" where
  "rep_greedy a mn mx [] k = (if mn = 0 then k [] else None)"
| "rep_greedy a mn mx (c # cs) k =
     (if accepts a c \<and> mx \<noteq> Some 0
      then (case rep_greedy a (mn - 1) (dec mx) cs k of
              Some r \<Rightarrow> Some r
            | None \<Rightarrow> if mn = 0 then k (c # cs) else None)
      else if mn = 0 then k (c # cs) else None)"

fun rep_lazy ::
  "atom \<Rightarrow> nat \<Rightarrow> nat option \<Rightarrow> string \<Rightarrow> (string \<Rightarrow> 'r option) \<Rightarrow> 'r option" where
  "rep_lazy a mn mx [] k = (if mn = 0 then k [] else None)"
| "rep_lazy a mn mx (c # cs) k =
     (case (if mn = 0 then k (c # cs) else None) of
        Some r \<Rightarrow> Some r
      | None \<Rightarrow>
          if accepts a c \<and> mx \<noteq> Some 0 then rep_lazy a (mn - 1) (dec mx) cs k else None)"

fun rmatch :: "bool \<Rightarrow> regex \<Rightarrow> string \<Rightarrow> groups \<Rightarrow> cont \<Rightarrow> (string \<times> groups) option" where
  "rmatch ic (Lit p) s gs k = (case lit_match ic p s of None \<Rightarrow> None | Some s' \<Rightarrow> k s' gs)"
| "rmatch ic (Ch a) s gs k =
     (case s of [] \<Rightarrow> None | c # cs \<Rightarrow> if accepts a c then k cs gs else None)"
| "rmatch ic (Greedy a mn mx) s gs k = rep_greedy a mn mx s (\<lambda>s'. k s' gs)"
| "rmatch ic (Lazy a mn mx) s gs k = rep_lazy a mn mx s (\<lambda>s'. k s' gs)"
| "rmatch ic (Seq r1 r2) s gs k = rmatch ic r1 s gs (\<lambda>s' gs'. rmatch ic r2 s' gs' k)"
| "rmatch ic (Alt r1 r2) s gs k =
     (case rmatch ic r1 s gs k of Some r \<Rightarrow> Some r | None \<Rightarrow> rmatch ic r2 s gs k)"
| "rmatch ic (Group r) s gs k =
     rmatch ic r s gs (\<lambda>s' gs'. k s' (gs' @ [take (length s - length s') s]))"

record pattern =
  ignorecase :: bool
  body :: regex

text \<open>
  A match object is the matched text \<open>group(0)\<close> with the list of the captured groups
  \<open>group(1)\<close>, \<open>group(2)\<close>, ...
\<close>

type_synonym match = "string \<times> groups"

definition match_at :: "pattern \<Rightarrow> string \<Rightarrow> match option" where
  "match_at p s =
     (case rmatch (ignorecase p) (body p) s [] (\<lambda>s' gs. Some (s', gs)) of
        None \<Rightarrow> None
      | Some (s', gs) \<Rightarrow> Some (take (length s - length s') s, gs))"

text \<open>
  \<open>re.finditer\<close>: the non-overlapping matches from left to right. The counter is the
  number of characters still covered by the previous match. None of the patterns of the
  source matches the empty string, so Python's rule for empty matches is not modelled.
\<close>

fun finditer_from :: "pattern \<Rightarrow> nat \<Rightarrow> string \<Rightarrow> match list" where
  "finditer_from p k [] = []"
| "finditer_from p (Suc k) (c # cs) = finditer_from p k cs"
| "finditer_from p 0 (c # cs) =
     (case match_at p (c # cs) of
        None \<Rightarrow> finditer_from p 0 cs
      | Some m \<Rightarrow> m # finditer_from p (length (fst m) - 1) cs)"

definition finditer :: "pattern \<Rightarrow> string \<Rightarrow> match list" where
  "finditer p s = finditer_from p 0 s"

text \<open>\<open>re.findall\<close> returns the captured groups of each match.\<close>

definition findall :: "pattern \<Rightarrow> string \<Rightarrow> groups list" where
  "findall p s = map snd (finditer p s)"

text \<open>\<open>match.group(i)\<close>\<close>

definition group :: "match \<Rightarrow> nat \<Rightarrow> py_error + string" where
  "group m i = (if i = 0 then Inr (fst m)
                else if i \<le> length (snd m) then Inr (snd m ! (i - 1)) else Inl (IndexError ''no such group''))"

fun seqs :: "regex list \<Rightarrow> regex" where
  "seqs [] = Lit []"
| "seqs [r] = r"
| "seqs (r # rs) = Seq r (seqs rs)"

fun alts :: "regex list \<Rightarrow> regex" where
  "alts [] = Lit []"
| "alts [r] = r"
| "alts (r # rs) = Alt r (alts rs)"

subsection \<open>What a match consumes and captures\<close>

text \<open>
  The relation between a pattern, the text before and after it, and the groups before
  and after it, without the order in which the matcher tries the alternatives.
\<close>

definition in_bounds :: "nat \<Rightarrow> nat option \<Rightarrow> nat \<Rightarrow> bool" where
  "in_bounds mn mx n = (mn \<le> n \<and> (case mx of None \<Rightarrow> True | Some b \<Rightarrow> n \<le> b))"

inductive derives :: "bool \<Rightarrow> regex \<Rightarrow> string \<Rightarrow> string \<Rightarrow> groups \<Rightarrow> groups \<Rightarrow> bool" where
  d_Lit: "lit_match ic p s = Some s' \<Longrightarrow> derives ic (Lit p) s s' gs gs"
| d_Ch: "accepts a c \<Longrightarrow> derives ic (Ch a) (c # cs) cs gs gs"
| d_Greedy: "list_all (accepts a) pre \<Longrightarrow> in_bounds mn mx (length pre)
             \<Longrightarrow> derives ic (Greedy a mn mx) (pre @ s') s' gs gs"
| d_Lazy: "list_all (accepts a) pre \<Longrightarrow> in_bounds mn mx (length pre)
             \<Longrightarrow> derives ic (Lazy a mn mx) (pre @ s') s' gs gs"
| d_Seq: "derives ic r1 s s1 gs gs1 \<Longrightarrow> derives ic r2 s1 s2 gs1 gs2
             \<Longrightarrow> derives ic (Seq r1 r2) s s2 gs gs2"
| d_Alt1: "derives ic r1 s s' gs gs' \<Longrightarrow> derives ic (Alt r1 r2) s s' gs gs'"
| d_Alt2: "derives ic r2 s s' gs gs' \<Longrightarrow> derives ic (Alt r1 r2) s s' gs gs'"
| d_Group: "derives ic r s s' gs gs'
             \<Longrightarrow> derives ic (Group r) s s' gs (gs' @ [take (length s - length s') s])"

section \<open>datetime\<close>

record datetime =
  year :: int
  month :: int
  day :: int
  hour :: int
  minute :: int
  second :: int
  microsecond :: int

definition is_leap :: "int \<Rightarrow> bool" where
  "is_leap y = (y mod 4 = 0 \<and> (y mod 100 \<noteq> 0 \<or> y mod 400 = 0))"

definition days_in_month :: "int \<Rightarrow> int \<Rightarrow> int" where
  "days_in_month y m =
     (if m = 2 then (if is_leap y then 29 else 28)
      else if m = 4 \<or> m = 6 \<or> m = 9 \<or> m = 11 then 30 else 31)"

text \<open>\<open>datetime(y, m, d)\<close>: midnight of that day, or \<open>ValueError\<close> for no such day.\<close>

definition mk_date :: "int \<Rightarrow> int \<Rightarrow> int \<Rightarrow> datetime" where
  "mk_date y m d =
     \<lparr>year = y, month = m, day = d, hour = 0, minute = 0, second = 0, microsecond = 0\<rparr>"

definition py_datetime :: "int \<Rightarrow> int \<Rightarrow> int \<Rightarrow> py_error + datetime" where
  "py_datetime y m d =
     (if y < 1 \<or> 9999 < y then Inl (ValueError ''year is out of range'')
      else if m < 1 \<or> 12 < m then Inl (ValueError ''month must be in 1..12'')
      else if d < 1 \<or> days_in_month y m < d then Inl (ValueError ''day is out of range for month'')
      else Inr (mk_date y m d))"

text \<open>The order \<open><\<close> of naive datetimes: lexicographic on the seven fields.\<close>

definition dt_fields :: "datetime \<Rightarrow> int list" where
  "dt_fields t = [year t, month t, day t, hour t, minute t, second t, microsecond t]"

fun lex_less :: "int list \<Rightarrow> int list \<Rightarrow> bool" where
  "lex_less (x # xs) (y # ys) = (x < y \<or> (x = y \<and> lex_less xs ys))"
| "lex_less [] (y # ys) = True"
| "lex_less xs [] = False"

definition dt_less :: "datetime \<Rightarrow> datetime \<Rightarrow> bool" where
  "dt_less a b = lex_less (dt_fields a) (dt_fields b)"

section \<open>content\_classifier.py: ContentClassifier\<close>

text \<open>The classifier's only field is \<open>current_date\<close>; it is the first argument below.\<close>

definition months :: "string list" where
  "months = [''january'', ''february'', ''march'', ''april'', ''may'', ''june'',
             ''july'', ''august'', ''september'', ''october'', ''november'', ''december'']"

definition month_group :: regex where
  "month_group = Group (alts (map Lit months))"

definition year_group :: regex where
  "year_group = Group (seqs [Lit ''20'', Ch (OneOf ascii_digits), Ch (OneOf ascii_digits)])"

text \<open>\<open>(?i)upcoming.{0,50}(january|...|december).{0,10}(20\d\d)\<close>\<close>

definition upcoming_pattern :: pattern where
  "upcoming_pattern = \<lparr>ignorecase = True, body =
     seqs [Lit ''upcoming'', Greedy AnyChar 0 (Some 50), month_group,
           Greedy AnyChar 0 (Some 10), year_group]\<rparr>"

text \<open>\<open>(?i)scheduled.*?for.*?(january|...|december).*?(20\d\d)\<close>\<close>

definition scheduled_pattern :: pattern where
  "scheduled_pattern = \<lparr>ignorecase = True, body =
     seqs [Lit ''scheduled'', Lazy AnyChar 0 None, Lit ''for'', Lazy AnyChar 0 None,
           month_group, Lazy AnyChar 0 None, year_group]\<rparr>"

text \<open>\<open>(?i)(by|in|reach|hitting).{0,20}(20[3-9]\d).{0,50}\$?([0-9,]+\.[0-9]+)\<close>\<close>

definition horizon_group :: regex where
  "horizon_group = Group (alts [Lit ''by'', Lit ''in'', Lit ''reach'', Lit ''hitting''])"

definition far_year_group :: regex where
  "far_year_group = Group (seqs [Lit ''20'', Ch (OneOf ''3456789''), Ch (OneOf ascii_digits)])"

definition decimal_group :: regex where
  "decimal_group = Group (seqs [Greedy (OneOf (ascii_digits @ '','')) 1 None, Lit ''.'',
                                Greedy (OneOf ascii_digits) 1 None])"

definition long_term_projection_pattern :: pattern where
  "long_term_projection_pattern = \<lparr>ignorecase = True, body =
     seqs [horizon_group, Greedy AnyChar 0 (Some 20), far_year_group,
           Greedy AnyChar 0 (Some 50), Greedy (OneOf ''$'') 0 (Some 1), decimal_group]\<rparr>"

text \<open>
  The body of both loops of \<open>validate_temporal_consistency\<close>: the date of a match,
  day 1 of the captured month and year.
\<close>

definition event_date :: "match \<Rightarrow> py_error + datetime" where
  "event_date m =
     err_bind (group m 1) (\<lambda>g1.
     err_bind (group m 2) (\<lambda>g2.
     err_bind (py_int g2) (\<lambda>year.
     err_bind (index months (lower g1)) (\<lambda>i.
     py_datetime year (i + 1) 1))))"

definition temporal_message :: "match \<Rightarrow> string \<Rightarrow> string" where
  "temporal_message m kind =
     ''Temporal inconsistency: '' @ [CHR 0x27] @ fst m @ [CHR 0x27] @ '' refers to '' @ kind"

text \<open>
  One \<open>for match in ...\<close> loop: \<open>Inr (Some r)\<close> is the \<open>return r\<close> inside the loop,
  \<open>Inr None\<close> is the loop running to its end.
\<close>

fun temporal_loop ::
  "datetime \<Rightarrow> string \<Rightarrow> match list \<Rightarrow> py_error + (bool \<times> string) option" where
  "temporal_loop current kind [] = Inr None"
| "temporal_loop current kind (m # ms) =
     err_bind (event_date m) (\<lambda>d.
       if dt_less d current then Inr (Some (False, temporal_message m kind))
       else temporal_loop current kind ms)"

definition validate_temporal_consistency :: "datetime \<Rightarrow> string \<Rightarrow> py_error + bool \<times> string" where
  "validate_temporal_consistency current text =
     err_bind (temporal_loop current ''a past event as upcoming''
                 (finditer upcoming_pattern text)) (\<lambda>r.
       case r of
         Some res \<Rightarrow> Inr res
       | None \<Rightarrow>
           err_bind (temporal_loop current ''a scheduled event that should have already occurred''
                       (finditer scheduled_pattern text)) (\<lambda>r.
             case r of
               Some res \<Rightarrow> Inr res
             | None \<Rightarrow> Inr (True, ''No temporal inconsistencies detected'')))"

text \<open>\<open>s.replace(',', '')\<close>\<close>

definition remove_commas :: "string \<Rightarrow> string" where
  "remove_commas s = filter (\<lambda>c. c \<noteq> CHR '','') s"

definition precision_message :: "match \<Rightarrow> int \<Rightarrow> string" where
  "precision_message m years_ahead =
     ''Unreasonable precision: '' @ [CHR 0x27] @ fst m @ [CHR 0x27]
       @ '' has decimal precision for a '' @ str_int years_ahead @ ''-year forecast''"

fun numerical_loop :: "datetime \<Rightarrow> match list \<Rightarrow> py_error + (bool \<times> string) option" where
  "numerical_loop current [] = Inr None"
| "numerical_loop current (m # ms) =
     err_bind (group m 2) (\<lambda>g2.
     err_bind (py_int g2) (\<lambda>y.
     err_bind (group m 3) (\<lambda>g3.
       let val = remove_commas g3;
           years_ahead = y - year current
       in if years_ahead > 10 \<and> CHR ''.'' \<in> set val
          then Inr (Some (False, precision_message m years_ahead))
          else numerical_loop current ms)))"

definition validate_numerical_reasonableness :: "datetime \<Rightarrow> string \<Rightarrow> py_error + bool \<times> string" where
  "validate_numerical_reasonableness current text =
     err_bind (numerical_loop current (finditer long_term_projection_pattern text)) (\<lambda>r.
       case r of
         Some res \<Rightarrow> Inr res
       | None \<Rightarrow> Inr (True, ''No unreasonable numerical projections detected''))"

subsection \<open>The two checks as the specification words them\<close>


text \<open>
  A matched projection whose year is more than 10 years after the reference date's year
  and whose numeric literal contains a decimal point.
\<close>

definition projected_year :: "match \<Rightarrow> int option" where
  "projected_year m =
     (case group m 2 of
        Inl e \<Rightarrow> None
      | Inr g \<Rightarrow> (case py_int g of Inl e \<Rightarrow> None | Inr y \<Rightarrow> Some y))"

definition long_horizon_precise :: "datetime \<Rightarrow> match \<Rightarrow> bool" where
  "long_horizon_precise current m =
     (case (projected_year m, group m 3) of
        (Some y, Inr literal) \<Rightarrow> y - year current > 10 \<and> CHR ''.'' \<in> set literal
      | _ \<Rightarrow> False)"


section \<open>memory.py: ResearchMemory\<close>

record contradiction =
  topic :: string
  claim1 :: string
  claim2 :: string
  source1 :: string
  source2 :: string
  timestamp :: string

record source_evaluation =
  url :: string
  title :: string
  credibility_rating :: string
  relevance_rating :: string
  justification :: string
  key_points :: "string list"

record info_entry =
  consensus :: "string list"
  entry_contradictions :: "string list"
  gaps :: "string list"

record research_memory =
  learnings :: "string list"
  visited_urls :: "string list"
  chain_of_thought :: "string list"
  information_map :: "(string \<times> info_entry) list"
  contradictions :: "contradiction list"
  source_evaluations :: "source_evaluation list"
  current_date :: datetime

text \<open>\<open>ResearchMemory.__init__\<close>; the argument is the reading of \<open>datetime.now()\<close>.\<close>

definition ResearchMemory_init :: "datetime \<Rightarrow> research_memory" where
  "ResearchMemory_init today =
     \<lparr>learnings = [], visited_urls = [], chain_of_thought = [], information_map = [],
      contradictions = [], source_evaluations = [], current_date = today\<rparr>"

definition add_learning :: "string \<Rightarrow> research_memory \<Rightarrow> research_memory" where
  "add_learning learning m =
     (if learning \<notin> set (learnings m) then m\<lparr>learnings := learnings m @ [learning]\<rparr> else m)"

definition add_learnings :: "string list \<Rightarrow> research_memory \<Rightarrow> research_memory" where
  "add_learnings new_learnings m = foldl (\<lambda>m l. add_learning l m) m new_learnings"

definition add_url :: "string \<Rightarrow> research_memory \<Rightarrow> research_memory" where
  "add_url u m =
     (if u \<notin> set (visited_urls m) then m\<lparr>visited_urls := visited_urls m @ [u]\<rparr> else m)"

definition add_urls :: "string list \<Rightarrow> research_memory \<Rightarrow> research_memory" where
  "add_urls new_urls m = foldl (\<lambda>m u. add_url u m) m new_urls"

text \<open>
  \<open>add_thought\<close> reads the wall clock; the argument \<open>now\<close> is that reading in the
  format \<open>%Y-%m-%d %H:%M:%S\<close>.
\<close>

definition add_thought :: "string \<Rightarrow> string \<Rightarrow> research_memory \<Rightarrow> research_memory" where
  "add_thought now thought m =
     m\<lparr>chain_of_thought := chain_of_thought m @ [''['' @ now @ ''] '' @ thought]\<rparr>"

text \<open>
  \<open>add_contradiction\<close> reads the wall clock twice: first for the record, in the format
  of \<open>isoformat()\<close>, then inside \<open>add_thought\<close>. The argument \<open>stamp\<close> is the first
  reading and \<open>now\<close> the second.
\<close>

definition add_contradiction ::
  "string \<Rightarrow> string \<Rightarrow> string \<Rightarrow> string \<Rightarrow> string \<Rightarrow> string \<Rightarrow> string
     \<Rightarrow> research_memory \<Rightarrow> research_memory" where
  "add_contradiction stamp now tp c1 c2 s1 s2 m =
     (let c = \<lparr>topic = tp, claim1 = c1, claim2 = c2, source1 = s1, source2 = s2, timestamp = stamp\<rparr>;
          m = m\<lparr>contradictions := contradictions m @ [c]\<rparr>
      in add_thought now
           (''Contradiction detected in topic '' @ [CHR 0x27] @ tp @ [CHR 0x27] @ '': ''
              @ c1 @ '' vs '' @ c2) m)"

definition add_source_evaluation :: "source_evaluation \<Rightarrow> research_memory \<Rightarrow> research_memory" where
  "add_source_evaluation e m = m\<lparr>source_evaluations := source_evaluations m @ [e]\<rparr>"

section \<open>auto\_tuning.py: AutoTuner\<close>

record auto_tuner =
  max_depth :: int
  max_breadth :: int
  time_budget_seconds :: "int option"
  start_time :: "real option"

text \<open>\<open>AutoTuner.__init__\<close>\<close>

definition AutoTuner_init :: "int \<Rightarrow> int \<Rightarrow> int option \<Rightarrow> auto_tuner" where
  "AutoTuner_init md mb tb =
     \<lparr>max_depth = md, max_breadth = mb, time_budget_seconds = tb, start_time = None\<rparr>"

text \<open>
  \<open>[A-Z][a-z]+ [A-Z][a-z]+|[A-Z][a-z]+\.[A-Z][a-z]+|[A-Z][A-Z]+|[A-Z][a-z]+\<close>, in one
  group and case-sensitive.
\<close>

definition capitalized :: "regex list" where
  "capitalized = [Ch (OneOf ascii_uppercase), Greedy (OneOf ascii_lowercase) 1 None]"

definition entity_pattern :: pattern where
  "entity_pattern = \<lparr>ignorecase = False, body =
     Group (alts [seqs (capitalized @ [Lit '' ''] @ capitalized),
                  seqs (capitalized @ [Lit ''.''] @ capitalized),
                  seqs [Ch (OneOf ascii_uppercase), Greedy (OneOf ascii_uppercase) 1 None],
                  seqs capitalized])\<rparr>"

definition complexity_keywords :: "string list" where
  "complexity_keywords = [''compare'', ''contrast'', ''analyze'', ''evaluate'',
     ''synthesize'', ''implications'', ''impact'', ''effects'',
     ''trend'', ''development'', ''causes'', ''relationship'']"

record complexity_metrics =
  complexity_score :: real
  entity_count :: nat
  aspect_count :: nat
  complexity_keyword_count :: nat

definition analyze_question_complexity :: "string \<Rightarrow> complexity_metrics" where
  "analyze_question_complexity query =
     (let entities = findall entity_pattern query;
          aspects = count query '','' + count query '';'' + count query ''and'';
          keyword_count = length (filter (\<lambda>word. sublist word (lower query)) complexity_keywords);
          score = real (length entities) * 0.5 + real aspects * 0.3 + real keyword_count * 0.7;
          normalized_score = min 1 (score / 10)
      in \<lparr>complexity_score = normalized_score, entity_count = length entities,
          aspect_count = aspects, complexity_keyword_count = keyword_count\<rparr>)"

definition determine_initial_parameters :: "auto_tuner \<Rightarrow> complexity_metrics \<Rightarrow> int \<times> int" where
  "determine_initial_parameters self metrics =
     (let score = complexity_score metrics;
          depth = max 1 (min (max_depth self) (py_round (1 + score * of_int (max_depth self - 1))));
          breadth = max 2 (min (max_breadth self) (py_round (2 + score * of_int (max_breadth self - 2))))
      in (depth, breadth))"

text \<open>
  \<open>AutoTuner.adjust_parameters\<close>: the quality band sets the two adjustments, the
  time check then decrements them in place, and the sums are clamped.
\<close>

definition adjust_parameters ::
  "auto_tuner \<Rightarrow> int \<Rightarrow> int \<Rightarrow> real \<Rightarrow> real \<Rightarrow> int \<times> int" where
  "adjust_parameters self current_depth current_breadth info_quality time_usage_fraction =
     (let (depth_adjustment, breadth_adjustment) =
            (if info_quality < 0.3 then (1, 2)
             else if info_quality > 0.7 then (-1, -1)
             else (0, 1));
          (depth_adjustment, breadth_adjustment) =
            (if time_usage_fraction > 0.7
             then (depth_adjustment - 1, breadth_adjustment - 2)
             else (depth_adjustment, breadth_adjustment));
          new_depth = max 1 (min (max_depth self) (current_depth + depth_adjustment));
          new_breadth = max 2 (min (max_breadth self) (current_breadth + breadth_adjustment))
      in (new_depth, new_breadth))"

text \<open>
  \<open>AutoTuner.estimate_info_quality\<close>. Each \<open>/\<close> of the source whose divisor is not
  a literal goes through \<^const>\<open>py_truediv\<close>, so that a division by zero would be
  an error value of the model. The operands of these divisions are integers.
\<close>

definition estimate_info_quality :: "string list \<Rightarrow> contradiction list \<Rightarrow> py_error + real" where
  "estimate_info_quality ls cs =
     (if ls = [] then Inr 0
      else case py_truediv (real (sum_list (map length ls))) (real (length ls)) of
        Inl e \<Rightarrow> Inl e
      | Inr avg_length \<Rightarrow>
          let length_score = min 1 (avg_length / 300) in
          (case py_truediv (real (length cs)) (real (max 1 (length ls))) of
             Inl e \<Rightarrow> Inl e
           | Inr contradiction_ratio \<Rightarrow>
               let contradiction_score = max 0 (1 - contradiction_ratio * 2);
                   all_text = join '' '' ls;
                   unique_words = length (remdups (split (lower all_text)));
                   total_words = length (split all_text)
               in (case py_truediv (real unique_words) (real (max 1 total_words)) of
                     Inl e \<Rightarrow> Inl e
                   | Inr ratio \<Rightarrow>
                       let diversity_score = min 1 (ratio * 3) in
                       Inr (length_score * 0.3 + contradiction_score * 0.3
                            + diversity_score * 0.4))))"

text \<open>
  \<open>AutoTuner.get_time_usage_fraction\<close>; the second argument is the reading of the
  event loop's clock, a float, so the division is one of floats.
\<close>

definition get_time_usage_fraction :: "auto_tuner \<Rightarrow> real \<Rightarrow> py_error + real" where
  "get_time_usage_fraction self loop_time =
     (case (time_budget_seconds self, start_time self) of
        (Some budget, Some start) \<Rightarrow>
          err_bind (py_float_truediv (loop_time - start) (of_int budget)) (\<lambda>f. Inr (min 1 f))
      | _ \<Rightarrow> Inr 0)"

subsection \<open>The adjustment rule as the specification words it\<close>

definition quality_band_deltas :: "real \<Rightarrow> int \<times> int" where
  "quality_band_deltas q = (if q < 0.3 then (1, 2) else if q > 0.7 then (-1, -1) else (0, 1))"

definition time_penalty :: "real \<Rightarrow> int \<times> int" where
  "time_penalty u = (if u > 0.7 then (1, 2) else (0, 0))"

definition clamp :: "int \<Rightarrow> int \<Rightarrow> int \<Rightarrow> int" where
  "clamp lo hi x = max lo (min hi x)"

definition adjust_parameters_spec ::
  "int \<Rightarrow> int \<Rightarrow> int \<Rightarrow> int \<Rightarrow> real \<Rightarrow> real \<Rightarrow> int \<times> int" where
  "adjust_parameters_spec md mb d b q u =
     (clamp 1 md (d + fst (quality_band_deltas q) - fst (time_penalty u)),
      clamp 2 mb (b + snd (quality_band_deltas q) - snd (time_penalty u)))"

text \<open>The three components of the quality estimate, for a non-empty list of learnings.\<close>

definition length_score :: "string list \<Rightarrow> real" where
  "length_score ls = min 1 (real (sum_list (map length ls)) / real (length ls) / 300)"

definition contradiction_score :: "string list \<Rightarrow> contradiction list \<Rightarrow> real" where
  "contradiction_score ls cs = max 0 (1 - real (length cs) / real (max 1 (length ls)) * 2)"

definition diversity_score :: "string list \<Rightarrow> real" where
  "diversity_score ls =
     min 1 (real (length (remdups (split (lower (join '' '' ls)))))
            / real (max 1 (length (split (join '' '' ls)))) * 3)"

subsection \<open>The entity pattern read directly\<close>

text \<open>
  What the entity pattern does at the start of a text, written with \<open>takeWhile\<close> and
  \<open>dropWhile\<close>: a capital letter and lowercase letters, then if possible a blank or a
  full stop and a second such word; or else a run of two or more capital letters. The
  result is the text that remains after the entity. The properties below relate it to
  the matcher.
\<close>

definition is_upper :: "char \<Rightarrow> bool" where
  "is_upper c = (c \<in> set ascii_uppercase)"

definition is_lower :: "char \<Rightarrow> bool" where
  "is_lower c = (c \<in> set ascii_lowercase)"

definition word_rest :: "string \<Rightarrow> string option" where
  "word_rest s = (if takeWhile is_lower s = [] then None else Some (dropWhile is_lower s))"

definition second_word_rest :: "string \<Rightarrow> string option" where
  "second_word_rest x =
     (case x of
        sep # u # x2 \<Rightarrow>
          if (sep = CHR '' '' \<or> sep = CHR ''.'') \<and> is_upper u then word_rest x2 else None
      | _ \<Rightarrow> None)"

definition entity_rest :: "string \<Rightarrow> string option" where
  "entity_rest s =
     (case s of
        [] \<Rightarrow> None
      | c # s1 \<Rightarrow>
          if \<not> is_upper c then None
          else (case word_rest s1 of
                  Some x \<Rightarrow> (case second_word_rest x of Some y \<Rightarrow> Some y | None \<Rightarrow> Some x)
                | None \<Rightarrow>
                    if takeWhile is_upper s1 = [] then None else Some (dropWhile is_upper s1)))"

text \<open>The number of entities that \<open>re.findall\<close> returns.\<close>

definition entities :: "string \<Rightarrow> nat" where
  "entities s = length (findall entity_pattern s)"

section \<open>progress.py: ResearchProgress\<close>

text \<open>The counters of the tracker; its start time only feeds the log line.\<close>

record research_progress =
  total_depth :: int
  total_breadth :: int
  current_depth :: int
  current_breadth :: int
  total_queries :: int
  completed_queries :: int
  current_query :: string

definition ResearchProgress_init :: "int \<Rightarrow> int \<Rightarrow> research_progress" where
  "ResearchProgress_init initial_depth initial_breadth =
     \<lparr>total_depth = initial_depth, total_breadth = initial_breadth,
      current_depth = initial_depth, current_breadth = initial_breadth,
      total_queries = 0, completed_queries = 0, current_query = []\<rparr>"

section \<open>engine.py: ResearchEngine\<close>

record serp_query =
  query :: string
  research_goal :: string

text \<open>The pydantic model \<open>Learnings\<close>.\<close>

record learnings_obj =
  obj_learnings :: "string list"
  obj_follow_up_questions :: "string list"

text \<open>
  The dictionary \<open>execute_query\<close> returns; a key that is absent is \<open>None\<close>.
\<close>

record query_result =
  success :: bool
  reason :: "string option"
  new_learnings :: "string list option"
  follow_up_questions :: "string list option"

text \<open>One entry of the scraper's \<open>data\<close>: its metadata's status code and URL.\<close>

record scrape_item =
  status_code :: "int option"
  item_url :: "string option"
  markdown :: "string option"

text \<open>
  The engine object, with the state of the outside world \<open>world\<close> (search engine,
  scraper, language model, clocks). The field \<open>iterations\<close> is not in the source: it
  records the arguments of every entry into \<open>execute_research_iteration\<close>, in order.
\<close>

record 'w engine =
  model :: string
  memory :: research_memory
  progress :: "research_progress option"
  content_classifier :: datetime
  auto_tune :: bool
  auto_tuner :: "auto_tuner option"
  world :: 'w
  iterations :: "(string \<times> int \<times> int) list"

text \<open>
  What the engine calls and this model does not look into: the clocks and number
  formats, the language model's answer to the query-generation prompt, and the three
  methods \<open>execute_search\<close>, \<open>scrape_content\<close> and \<open>process_serp_result\<close>, which
  talk to the search engine, the scraper and the language model. Each method may change
  the memory and the world in any way, and may raise.
\<close>

record 'w providers =
  clock :: "'w \<Rightarrow> string"
  loop_clock :: "'w \<Rightarrow> real"
  format_2f :: "real \<Rightarrow> string"
  format_date :: "datetime \<Rightarrow> string"
  llm_serp_queries :: "string \<Rightarrow> int \<Rightarrow> string list \<Rightarrow> 'w \<Rightarrow> (py_error + serp_query list) \<times> 'w"
  execute_search ::
    "string \<Rightarrow> research_memory \<times> 'w \<Rightarrow> (py_error + string list) \<times> research_memory \<times> 'w"
  scrape_content ::
    "string list \<Rightarrow> research_memory \<times> 'w \<Rightarrow> (py_error + scrape_item list) \<times> research_memory \<times> 'w"
  process_serp_result ::
    "string \<Rightarrow> scrape_item list \<Rightarrow> int \<Rightarrow> research_memory \<times> 'w
       \<Rightarrow> (py_error + learnings_obj option) \<times> research_memory \<times> 'w"

text \<open>\<open>ResearchEngine.__init__\<close>, which reads \<open>os.environ['LLM_MODEL_NAME']\<close>.\<close>

definition ResearchEngine_init ::
  "(string \<rightharpoonup> string) \<Rightarrow> datetime \<Rightarrow> 'w \<Rightarrow> bool \<Rightarrow> int \<Rightarrow> int \<Rightarrow> int option \<Rightarrow> py_error + 'w engine" where
  "ResearchEngine_init environ today w tune md mb tbs =
     (case environ ''LLM_MODEL_NAME'' of
        None \<Rightarrow> Inl (KeyError ''LLM_MODEL_NAME'')
      | Some name \<Rightarrow>
          Inr \<lparr>model = name, memory = ResearchMemory_init today, progress = None,
               content_classifier = today, auto_tune = tune,
               auto_tuner = (if tune then Some (AutoTuner_init md mb tbs) else None),
               world = w, iterations = []\<rparr>)"

text \<open>\<open>self.memory.add_thought(...)\<close>\<close>

definition think :: "'w providers \<Rightarrow> string \<Rightarrow> 'w engine \<Rightarrow> 'w engine" where
  "think P thought eng = eng\<lparr>memory := add_thought (clock P (world eng)) thought (memory eng)\<rparr>"

text \<open>\<open>if self.progress: self.progress.update({...})\<close>\<close>

definition update_progress ::
  "(research_progress \<Rightarrow> research_progress) \<Rightarrow> 'w engine \<Rightarrow> 'w engine" where
  "update_progress f eng = eng\<lparr>progress := map_option f (progress eng)\<rparr>"

definition determine_auto_parameters ::
  "'w providers \<Rightarrow> string \<Rightarrow> 'w engine \<Rightarrow> (int \<times> int) \<times> 'w engine" where
  "determine_auto_parameters P q eng =
     (case auto_tuner eng of
        None \<Rightarrow> ((2, 4), eng)
      | Some tuner \<Rightarrow>
          if \<not> auto_tune eng then ((2, 4), eng)
          else let metrics = analyze_question_complexity q;
                   (depth, breadth) = determine_initial_parameters tuner metrics
               in ((depth, breadth),
                   think P (''Auto-tuned parameters - Initial depth: '' @ str_int depth
                            @ '', breadth: '' @ str_int breadth @ '' (complexity score: ''
                            @ format_2f P (complexity_score metrics) @ '')'') eng))"

text \<open>\<open>ResearchEngine.adjust_parameters\<close>\<close>

definition engine_adjust_parameters ::
  "'w providers \<Rightarrow> int \<Rightarrow> int \<Rightarrow> 'w engine \<Rightarrow> py_error + (int \<times> int) \<times> 'w engine" where
  "engine_adjust_parameters P d b eng =
     (case auto_tuner eng of
        None \<Rightarrow> Inr ((d, b), eng)
      | Some tuner \<Rightarrow>
          if \<not> auto_tune eng then Inr ((d, b), eng)
          else
            err_bind (estimate_info_quality (learnings (memory eng)) (contradictions (memory eng)))
              (\<lambda>info_quality.
            err_bind (get_time_usage_fraction tuner (loop_clock P (world eng)))
              (\<lambda>time_usage.
               let (new_depth, new_breadth) = adjust_parameters tuner d b info_quality time_usage
               in Inr ((new_depth, new_breadth),
                       if new_depth \<noteq> d \<or> new_breadth \<noteq> b
                       then think P (''Auto-adjusted parameters - New depth: '' @ str_int new_depth
                                @ '', breadth: '' @ str_int new_breadth @ '' (info quality: ''
                                @ format_2f P info_quality @ '', time usage: ''
                                @ format_2f P time_usage @ '')'') eng
                       else eng))))"

text \<open>
  \<open>ResearchEngine.detect_contradictions\<close> touches \<open>self.memory\<close> only. Each of the
  three checks runs over the stored learnings, which recording a contradiction leaves
  as they are. Every recording reads the wall clock twice (see
  \<^const>\<open>add_contradiction\<close>): \<open>wall k\<close> is the pair of readings, \<open>isoformat()\<close> for
  the record and \<open>%Y-%m-%d %H:%M:%S\<close> for the thought, made by the recording that finds
  \<open>k\<close> contradictions in the memory.
\<close>

type_synonym wall_clock = "nat \<Rightarrow> string \<times> string"

definition record_time :: "wall_clock \<Rightarrow> research_memory \<Rightarrow> string" where
  "record_time wall m = fst (wall (length (contradictions m)))"

definition thought_time :: "wall_clock \<Rightarrow> research_memory \<Rightarrow> string" where
  "thought_time wall m = snd (wall (length (contradictions m)))"

definition performance_keywords :: "string list" where
  "performance_keywords = [''performance'', ''growth'', ''revenue'', ''sales'', ''profit'', ''loss'']"

definition event_keywords :: "string list" where
  "event_keywords = [''scheduled'', ''upcoming'', ''announced'', ''launched'']"

definition layoff_keywords :: "string list" where
  "layoff_keywords = [''layoff'', ''job cut'', ''firing'', ''downsizing'']"

definition positive_terms :: "string list" where
  "positive_terms = [''growth'', ''increase'', ''positive'', ''strong'', ''success'']"

definition negative_terms :: "string list" where
  "negative_terms = [''decline'', ''decrease'', ''negative'', ''weak'', ''failure'']"

definition plan_terms :: "string list" where
  "plan_terms = [''plan'', ''will'', ''future'', ''expected'', ''upcoming'']"

definition past_terms :: "string list" where
  "past_terms = [''completed'', ''announced'', ''executed'', ''implemented'']"

text \<open>\<open>(january|...|december).{0,10}(20\d\d)\<close>, case-sensitive.\<close>

definition date_pattern :: pattern where
  "date_pattern = \<lparr>ignorecase = False, body =
     seqs [month_group, Greedy AnyChar 0 (Some 10), year_group]\<rparr>"

definition performance_check :: "wall_clock \<Rightarrow> string \<Rightarrow> string \<Rightarrow> research_memory \<Rightarrow> research_memory" where
  "performance_check wall new_learning existing m =
     (if any_in performance_keywords (lower existing)
      then let new_positive = any_in positive_terms (lower new_learning);
               new_negative = any_in negative_terms (lower new_learning);
               existing_positive = any_in positive_terms (lower existing);
               existing_negative = any_in negative_terms (lower existing)
           in if (new_positive \<and> existing_negative) \<or> (new_negative \<and> existing_positive)
              then add_contradiction (record_time wall m) (thought_time wall m)
                     ''Performance'' existing new_learning [] [] m
              else m
      else m)"

definition event_check :: "wall_clock \<Rightarrow> string \<Rightarrow> string \<Rightarrow> research_memory \<Rightarrow> research_memory" where
  "event_check wall new_learning existing m =
     (if any_in event_keywords (lower existing)
      then let new_dates = findall date_pattern (lower new_learning);
               existing_dates = findall date_pattern (lower existing)
           in if new_dates \<noteq> [] \<and> existing_dates \<noteq> [] \<and> new_dates \<noteq> existing_dates
              then add_contradiction (record_time wall m) (thought_time wall m)
                     ''Event Dates'' existing new_learning [] [] m
              else m
      else m)"

definition layoff_check :: "wall_clock \<Rightarrow> string \<Rightarrow> string \<Rightarrow> research_memory \<Rightarrow> research_memory" where
  "layoff_check wall new_learning existing m =
     (if any_in layoff_keywords (lower existing)
      then let new_plan = any_in plan_terms (lower new_learning);
               new_past = any_in past_terms (lower new_learning);
               existing_plan = any_in plan_terms (lower existing);
               existing_past = any_in past_terms (lower existing)
           in if (new_plan \<and> existing_past) \<or> (new_past \<and> existing_plan)
              then add_contradiction (record_time wall m) (thought_time wall m)
                     ''Layoff Timeline'' existing new_learning [] [] m
              else m
      else m)"

definition detect_contradictions :: "wall_clock \<Rightarrow> string \<Rightarrow> research_memory \<Rightarrow> research_memory" where
  "detect_contradictions wall new_learning m =
     (if learnings m = [] then m
      else
        let m = (if any_in performance_keywords (lower new_learning)
                 then foldl (\<lambda>m existing. performance_check wall new_learning existing m) m (learnings m)
                 else m);
            m = (if any_in event_keywords (lower new_learning)
                 then foldl (\<lambda>m existing. event_check wall new_learning existing m) m (learnings m)
                 else m);
            m = (if any_in layoff_keywords (lower new_learning)
                 then foldl (\<lambda>m existing. layoff_check wall new_learning existing m) m (learnings m)
                 else m)
        in m)"

definition generate_serp_queries ::
  "'w providers \<Rightarrow> string \<Rightarrow> int \<Rightarrow> 'w engine \<Rightarrow> serp_query list \<times> 'w engine" where
  "generate_serp_queries P q num_queries eng =
     (let eng = think P (''Generating SERP queries for: '' @ q) eng;
          (r, w) = llm_serp_queries P q num_queries (learnings (memory eng)) (world eng);
          eng = eng\<lparr>world := w\<rparr>
      in case r of
           Inl e \<Rightarrow> ([], think P (''Error generating SERP queries: '' @ error_message e) eng)
         | Inr qs \<Rightarrow>
             let eng = think P (''Generated '' @ str_int (int (length qs)) @ '' SERP queries'') eng;
                 eng = foldl (\<lambda>eng (i, sq).
                          think P (''Query '' @ str_int (int i + 1) @ '': '' @ query sq
                                   @ '' - Goal: '' @ research_goal sq) eng)
                        eng (enumerate 0 qs)
             in (slice_to qs num_queries, eng))"

definition failed_query :: "'w providers \<Rightarrow> serp_query \<Rightarrow> py_error \<Rightarrow> 'w engine \<Rightarrow> query_result \<times> 'w engine" where
  "failed_query P sq e eng =
     (\<lparr>success = False, reason = Some (error_message e), new_learnings = None,
       follow_up_questions = None\<rparr>,
      think P (''Error executing query '' @ [CHR 0x27] @ query sq @ [CHR 0x27] @ '': ''
               @ error_message e) eng)"

definition successful_urls :: "scrape_item list \<Rightarrow> string list" where
  "successful_urls data =
     map (\<lambda>item. case item_url item of None \<Rightarrow> ''unknown'' | Some u \<Rightarrow> u)
       (filter (\<lambda>item. status_code item = Some 200) data)"

definition execute_query ::
  "'w providers \<Rightarrow> serp_query \<Rightarrow> int \<Rightarrow> int \<Rightarrow> 'w engine \<Rightarrow> query_result \<times> 'w engine" where
  "execute_query P sq d b eng =
     (let eng = think P (''Executing research query: '' @ query sq) eng;
          eng = think P (''Research goal: '' @ research_goal sq) eng;
          eng = update_progress (\<lambda>p. p\<lparr>current_query := query sq, current_depth := d,
                                         current_breadth := b\<rparr>) eng;
          (r, m, w) = execute_search P (query sq) (memory eng, world eng);
          eng = eng\<lparr>memory := m, world := w\<rparr>
      in case r of
           Inl e \<Rightarrow> failed_query P sq e eng
         | Inr search_urls \<Rightarrow>
             if search_urls = []
             then (\<lparr>success = False, reason = Some ''No search results found'',
                    new_learnings = None, follow_up_questions = None\<rparr>,
                   think P ''No search results found. Cannot proceed with this query.'' eng)
             else
               let (r, m, w) = scrape_content P search_urls (memory eng, world eng);
                   eng = eng\<lparr>memory := m, world := w\<rparr>
               in case r of
                    Inl e \<Rightarrow> failed_query P sq e eng
                  | Inr data \<Rightarrow>
                      let (r, m, w) = process_serp_result P (query sq) data b (memory eng, world eng);
                          eng = eng\<lparr>memory := m, world := w\<rparr>
                      in case r of
                           Inl e \<Rightarrow> failed_query P sq e eng
                         | Inr new_learnings_obj \<Rightarrow>
                             let eng = eng\<lparr>memory := add_urls (successful_urls data) (memory eng)\<rparr>
                             in case new_learnings_obj of
                                  None \<Rightarrow>
                                    (\<lparr>success = True, reason = None, new_learnings = Some [],
                                      follow_up_questions = None\<rparr>, eng)
                                | Some obj \<Rightarrow>
                                    let eng = eng\<lparr>memory := add_learnings (obj_learnings obj) (memory eng)\<rparr>
                                    in if d > 1
                                       then
                                         let fq = obj_follow_up_questions obj;
                                             eng = think P (''Identified '' @ str_int (int (length fq))
                                                     @ '' follow-up questions for deeper research'') eng;
                                             eng = foldl (\<lambda>eng (i, question).
                                                      think P (''Follow-up '' @ str_int (int i + 1)
                                                               @ '': '' @ question) eng)
                                                    eng (enumerate 0 fq)
                                         in (\<lparr>success = True, reason = None,
                                               new_learnings = Some (obj_learnings obj),
                                               follow_up_questions = Some fq\<rparr>, eng)
                                       else
                                         (\<lparr>success = True, reason = None, new_learnings = Some [],
                                           follow_up_questions = None\<rparr>, eng))"

text \<open>\<open>query_result.get("follow_up_questions", [])\<close>\<close>

definition get_follow_ups :: "query_result \<Rightarrow> string list" where
  "get_follow_ups r = (case follow_up_questions r of None \<Rightarrow> [] | Some fq \<Rightarrow> fq)"

text \<open>\<open>math.ceil(b / 2)\<close>: the division makes a float, which \<open>math.ceil\<close> rounds up.\<close>

definition ceil_half :: "int \<Rightarrow> py_error + int" where
  "ceil_half b = err_bind (half_as_float b) (\<lambda>x. Inr \<lceil>x\<rceil>)"

definition next_query :: "serp_query \<Rightarrow> string list \<Rightarrow> string" where
  "next_query sq fq =
     strip (''Previous research goal: '' @ research_goal sq @ [CHR 0x0A]
            @ ''Follow-up research directions:'' @ [CHR 0x0A] @ join [CHR 0x0A] (take 3 fq))"

text \<open>
  The nested function \<open>execute_research_iteration\<close> and its \<open>for serp_query in ...\<close>
  loop. The recursion need not end (with auto-tuning the next depth can equal the current
  one), so the first argument bounds the nesting of iterations; \<open>None\<close> is a run that
  needs a deeper nesting than that. \<open>Some (Inl e)\<close> is an exception leaving the iteration.
\<close>

fun execute_research_iteration ::
  "nat \<Rightarrow> 'w providers \<Rightarrow> string \<Rightarrow> int \<Rightarrow> int \<Rightarrow> 'w engine \<Rightarrow> (py_error + 'w engine) option"
and execute_each ::
  "nat \<Rightarrow> 'w providers \<Rightarrow> serp_query list \<Rightarrow> int \<Rightarrow> int \<Rightarrow> 'w engine \<Rightarrow> (py_error + 'w engine) option"
where
  "execute_research_iteration 0 P iteration_query d b eng = None"
| "execute_research_iteration (Suc n) P iteration_query d b eng =
     (let eng = eng\<lparr>iterations := iterations eng @ [(iteration_query, d, b)]\<rparr>;
          eng = think P (''Starting research iteration at depth '' @ str_int d
                         @ '' with breadth '' @ str_int b) eng;
          eng = think P (''Iteration query: '' @ iteration_query) eng;
          (serp_queries, eng) = generate_serp_queries P iteration_query b eng
      in if serp_queries = []
         then Some (Inr (think P ''Failed to generate search queries. Ending this research path.'' eng))
         else execute_each n P serp_queries d b
                (update_progress (\<lambda>p. p\<lparr>total_queries := total_queries p + int (length serp_queries)\<rparr>) eng))"
| "execute_each n P [] d b eng = Some (Inr eng)"
| "execute_each n P (sq # rest) d b eng =
     (let (query_result, eng) = execute_query P sq d b eng;
          eng = update_progress (\<lambda>p. p\<lparr>completed_queries := completed_queries p + 1\<rparr>) eng
      in if success query_result \<and> d > 1 \<and> get_follow_ups query_result \<noteq> []
         then
           (case (if auto_tune eng then engine_adjust_parameters P (d - 1) b eng
                  else err_bind (ceil_half b) (\<lambda>h. Inr ((d - 1, max 1 h), eng))) of
              Inl e \<Rightarrow> Some (Inl e)
            | Inr ((new_depth, new_breadth), eng) \<Rightarrow>
                (case execute_research_iteration n P
                        (next_query sq (get_follow_ups query_result)) new_depth new_breadth eng of
                   None \<Rightarrow> None
                 | Some (Inl e) \<Rightarrow> Some (Inl e)
                 | Some (Inr eng) \<Rightarrow> execute_each n P rest d b eng))
         else execute_each n P rest d b eng)"

text \<open>The dictionary a run returns.\<close>

datatype result_value =
    Strings "string list"
  | InformationMap "(string \<times> info_entry) list"
  | Contradictions "contradiction list"
  | SourceEvaluations "source_evaluation list"

type_synonym result = "(string \<times> result_value) list"

definition memory_snapshot :: "research_memory \<Rightarrow> result" where
  "memory_snapshot m =
     [(''learnings'', Strings (learnings m)),
      (''visited_urls'', Strings (visited_urls m)),
      (''chain_of_thought'', Strings (chain_of_thought m)),
      (''information_map'', InformationMap (information_map m)),
      (''contradictions'', Contradictions (contradictions m)),
      (''source_evaluations'', SourceEvaluations (source_evaluations m))]"

text \<open>\<open>ResearchEngine.deep_research\<close>\<close>

definition engine_deep_research ::
  "nat \<Rightarrow> 'w providers \<Rightarrow> string \<Rightarrow> int option \<Rightarrow> int option \<Rightarrow> 'w engine
     \<Rightarrow> (py_error + result \<times> 'w engine) option" where
  "engine_deep_research fuel P q breadth depth eng =
     (let ((depth, breadth), eng) =
            (if auto_tune eng \<and> (breadth = None \<or> depth = None)
             then let ((auto_depth, auto_breadth), eng) = determine_auto_parameters P q eng
                  in ((py_or depth auto_depth, py_or breadth auto_breadth), eng)
             else ((py_or depth 2, py_or breadth 4), eng));
          eng = eng\<lparr>progress := Some (ResearchProgress_init depth breadth)\<rparr>;
          eng = (case auto_tuner eng of
                   Some tuner \<Rightarrow>
                     if auto_tune eng
                     then eng\<lparr>auto_tuner := Some (tuner\<lparr>start_time := Some (loop_clock P (world eng))\<rparr>)\<rparr>
                     else eng
                 | None \<Rightarrow> eng);
          eng = think P (''Starting deep research on: '' @ q) eng;
          eng = think P (''Research parameters - Breadth: '' @ str_int breadth
                         @ '', Depth: '' @ str_int depth) eng;
          eng = think P (''Current date context: '' @ format_date P (current_date (memory eng))) eng
      in case execute_research_iteration fuel P q depth breadth eng of
           None \<Rightarrow> None
         | Some (Inl e) \<Rightarrow> Some (Inl e)
         | Some (Inr eng) \<Rightarrow>
             let eng = think P ''Research process completed'' eng
             in Some (Inr (memory_snapshot (memory eng), eng)))"

section \<open>api.py: the public entry point\<close>

text \<open>The body of the \<open>try\<close> block of \<open>deep_research\<close>.\<close>

definition run_engine ::
  "nat \<Rightarrow> 'w providers \<Rightarrow> (string \<rightharpoonup> string) \<Rightarrow> datetime \<Rightarrow> 'w \<Rightarrow> string \<Rightarrow> int option \<Rightarrow> int option
     \<Rightarrow> bool \<Rightarrow> int \<Rightarrow> int \<Rightarrow> int option \<Rightarrow> (py_error + result \<times> 'w engine) option" where
  "run_engine fuel P environ today w q breadth depth tune md mb tbs =
     (case ResearchEngine_init environ today w tune md mb tbs of
        Inl e \<Rightarrow> Some (Inl e)
      | Inr eng \<Rightarrow> engine_deep_research fuel P q breadth depth eng)"

text \<open>The dictionary of the \<open>except Exception\<close> branch.\<close>

definition error_result :: "py_error \<Rightarrow> result" where
  "error_result e =
     [(''learnings'', Strings [''Research error: '' @ error_message e]),
      (''visited_urls'', Strings []),
      (''chain_of_thought'', Strings [''Critical error in research process: '' @ error_message e])]"

definition deep_research ::
  "nat \<Rightarrow> 'w providers \<Rightarrow> (string \<rightharpoonup> string) \<Rightarrow> datetime \<Rightarrow> 'w \<Rightarrow> string \<Rightarrow> int option \<Rightarrow> int option
     \<Rightarrow> bool \<Rightarrow> int \<Rightarrow> int \<Rightarrow> int option \<Rightarrow> result option" where
  "deep_research fuel P environ today w q breadth depth tune md mb tbs =
     map_option (\<lambda>r. case r of Inl e \<Rightarrow> error_result e | Inr (res, eng) \<Rightarrow> res)
       (run_engine fuel P environ today w q breadth depth tune md mb tbs)"

section \<open>Sample collaborators\<close>

text \<open>
  A search engine, scraper and language model that always answer, with one result, one
  learning and two follow-up questions; an environment that names the model; and a
  freshly constructed engine. They serve as concrete inputs.
\<close>

definition example_providers :: "unit providers" where
  "example_providers =
     \<lparr>clock = (\<lambda>w. ''t''),
      loop_clock = (\<lambda>w. 0),
      format_2f = (\<lambda>x. ''0.00''),
      format_date = (\<lambda>d. ''2024-03-15''),
      llm_serp_queries = (\<lambda>q n ls w. (Inr [\<lparr>query = ''sq'', research_goal = ''goal''\<rparr>], w)),
      execute_search = (\<lambda>q (m, w). (Inr [''http://a''], m, w)),
      scrape_content = (\<lambda>us (m, w).
         (Inr [\<lparr>status_code = Some 200, item_url = Some ''http://a'', markdown = Some ''text''\<rparr>], m, w)),
      process_serp_result = (\<lambda>q data n (m, w).
         (Inr (Some \<lparr>obj_learnings = [''fact''], obj_follow_up_questions = [''why'', ''how'']\<rparr>), m, w))\<rparr>"

definition example_environ :: "string \<rightharpoonup> string" where
  "example_environ = [''LLM_MODEL_NAME'' \<mapsto> ''m'']"

definition example_engine :: "unit engine" where
  "example_engine =
     \<lparr>model = ''m'', memory = ResearchMemory_init (mk_date 2024 3 15), progress = None,
      content_classifier = mk_date 2024 3 15, auto_tune = False, auto_tuner = None,
      world = (), iterations = []\<rparr>"

section \<open>Properties of the string operations\<close>

lemma length_uppercase: "length (ascii_uppercase @ latin1_uppercase) = length (ascii_lowercase @ latin1_lowercase)"
  by (simp add: ascii_uppercase_def ascii_lowercase_def latin1_uppercase_def latin1_lowercase_def)

lemma lower_char_keep: "c \<notin> set (ascii_uppercase @ latin1_uppercase) \<Longrightarrow> lower_char c = c"
proof -
  assume "c \<notin> set (ascii_uppercase @ latin1_uppercase)"
  then have "map_of (zip (ascii_uppercase @ latin1_uppercase) (ascii_lowercase @ latin1_lowercase)) c = None"
    using length_uppercase by (simp add: map_of_zip_is_None del: set_append)
  then show ?thesis by (simp add: lower_char_def)
qed

lemma lower_char_range: "lower_char c = c \<or> lower_char c \<in> set (ascii_lowercase @ latin1_lowercase)"
  unfolding lower_char_def
  by (auto split: option.splits dest!: map_of_SomeD set_zip_rightD)

lemma lower_char_fixed:
  "lower_char c = d \<Longrightarrow> d \<notin> set (ascii_lowercase @ latin1_lowercase) \<Longrightarrow> c = d"
  using lower_char_range [of c] by auto

lemma lower_keep: "set s \<inter> set (ascii_uppercase @ latin1_uppercase) = {} \<Longrightarrow> lower s = s"
  unfolding lower_def by (rule map_idI) (auto intro!: lower_char_keep)


section \<open>Properties of the matcher\<close>

inductive_simps derives_Lit [simp]: "derives ic (Lit p) s s' gs gs'"
inductive_simps derives_Ch [simp]: "derives ic (Ch a) s s' gs gs'"
inductive_simps derives_Greedy: "derives ic (Greedy a mn mx) s s' gs gs'"
inductive_simps derives_Seq [simp]: "derives ic (Seq r1 r2) s s' gs gs'"
inductive_simps derives_Alt [simp]: "derives ic (Alt r1 r2) s s' gs gs'"
inductive_simps derives_Group [simp]: "derives ic (Group r) s s' gs gs'"

lemma in_bounds_dec: "in_bounds (mn - 1) (dec mx) n \<Longrightarrow> mx \<noteq> Some 0 \<Longrightarrow> in_bounds mn mx (Suc n)"
  by (auto simp: in_bounds_def dec_def split: option.splits)

lemma rep_greedy_sound:
  "rep_greedy a mn mx s k = Some res \<Longrightarrow>
     \<exists>pre s'. s = pre @ s' \<and> list_all (accepts a) pre \<and> in_bounds mn mx (length pre) \<and> k s' = Some res"
proof (induction s arbitrary: mn mx)
  case Nil
  then show ?case by (auto simp: in_bounds_def split: if_splits option.splits)
next
  case (Cons c cs)
  show ?case
  proof (cases "accepts a c \<and> mx \<noteq> Some 0")
    case True
    show ?thesis
    proof (cases "rep_greedy a (mn - 1) (dec mx) cs k")
      case None
      with Cons.prems True have "mn = 0" "k (c # cs) = Some res"
        by (auto split: if_splits)
      then show ?thesis
        by (intro exI [of _ "[]"] exI [of _ "c # cs"]) (auto simp: in_bounds_def split: option.splits)
    next
      case (Some r)
      with Cons.prems True have "r = res" by simp
      with Some Cons.IH [of "mn - 1" "dec mx"]
      obtain pre s' where "cs = pre @ s'" "list_all (accepts a) pre"
        "in_bounds (mn - 1) (dec mx) (length pre)" "k s' = Some res" by blast
      with True show ?thesis
        by (intro exI [of _ "c # pre"] exI [of _ s']) (auto intro: in_bounds_dec)
    qed
  next
    case False
    with Cons.prems have "mn = 0" "k (c # cs) = Some res"
      by (auto split: if_splits)
    then show ?thesis
      by (intro exI [of _ "[]"] exI [of _ "c # cs"]) (auto simp: in_bounds_def split: option.splits)
  qed
qed

lemma rep_lazy_sound:
  "rep_lazy a mn mx s k = Some res \<Longrightarrow>
     \<exists>pre s'. s = pre @ s' \<and> list_all (accepts a) pre \<and> in_bounds mn mx (length pre) \<and> k s' = Some res"
proof (induction s arbitrary: mn mx)
  case Nil
  then show ?case by (auto simp: in_bounds_def split: if_splits option.splits)
next
  case (Cons c cs)
  show ?case
  proof (cases "mn = 0 \<and> k (c # cs) = Some res")
    case True
    then show ?thesis
      by (intro exI [of _ "[]"] exI [of _ "c # cs"]) (auto simp: in_bounds_def split: option.splits)
  next
    case False
    with Cons.prems have acc: "accepts a c \<and> mx \<noteq> Some 0"
      and rec: "rep_lazy a (mn - 1) (dec mx) cs k = Some res"
      by (auto split: if_splits option.splits)
    from Cons.IH [OF rec]
    obtain pre s' where "cs = pre @ s'" "list_all (accepts a) pre"
      "in_bounds (mn - 1) (dec mx) (length pre)" "k s' = Some res" by blast
    with acc show ?thesis
      by (intro exI [of _ "c # pre"] exI [of _ s']) (auto intro: in_bounds_dec)
  qed
qed

lemma rmatch_sound:
  "rmatch ic r s gs k = Some res \<Longrightarrow> \<exists>s' gs'. derives ic r s s' gs gs' \<and> k s' gs' = Some res"
proof (induction r arbitrary: s gs k)
  case (Lit p)
  then show ?case by (auto split: option.splits)
next
  case (Ch a)
  then show ?case by (auto split: list.splits if_splits)
next
  case (Greedy a mn mx)
  then show ?case using rep_greedy_sound [of a mn mx s "\<lambda>s'. k s' gs" res]
    by (auto intro: d_Greedy)
next
  case (Lazy a mn mx)
  then show ?case using rep_lazy_sound [of a mn mx s "\<lambda>s'. k s' gs" res]
    by (auto intro: d_Lazy)
next
  case (Seq r1 r2)
  from Seq.prems Seq.IH(1) [of s gs "\<lambda>s' gs'. rmatch ic r2 s' gs' k"]
  obtain s1 gs1 where 1: "derives ic r1 s s1 gs gs1" and "rmatch ic r2 s1 gs1 k = Some res"
    by auto
  with Seq.IH(2) [of s1 gs1 k] obtain s2 gs2 where "derives ic r2 s1 s2 gs1 gs2" "k s2 gs2 = Some res"
    by auto
  with 1 show ?case by auto
next
  case (Alt r1 r2)
  then show ?case by (fastforce split: option.splits)
next
  case (Group r)
  from Group.prems Group.IH [of s gs "\<lambda>s' gs'. k s' (gs' @ [take (length s - length s') s])"]
  show ?case by auto
qed

lemma match_at_sound:
  "match_at p s = Some m \<Longrightarrow>
     \<exists>s'. derives (ignorecase p) (body p) s s' [] (snd m) \<and> fst m = take (length s - length s') s"
  unfolding match_at_def
  by (auto split: option.splits prod.splits dest!: rmatch_sound)

lemma finditer_from_sound:
  "m \<in> set (finditer_from p k s) \<Longrightarrow> \<exists>t. suffix t s \<and> match_at p t = Some m"
proof (induction p k s rule: finditer_from.induct)
  case (1 p k)
  then show ?case by simp
next
  case (2 p k c cs)
  then show ?case by (auto intro: suffix_ConsI)
next
  case (3 p c cs)
  then show ?case
    by (auto split: option.splits intro: suffix_ConsI)
qed

lemma finditer_sound:
  "m \<in> set (finditer p s) \<Longrightarrow> \<exists>t. suffix t s \<and> match_at p t = Some m"
  unfolding finditer_def by (rule finditer_from_sound)

section \<open>Properties of the auto-tuner\<close>

text \<open>
  C3. For all integers depth and breadth and all quality and time-usage values (in
  particular those in [0,1]), \<open>adjust_parameters\<close> returns the band deltas
  (+1,+2) / (-1,-1) / (0,+1), less (1,2) when the time usage exceeds 0.7, added to the
  inputs and clamped by \<open>max 1 (min max_depth _)\<close> and \<open>max 2 (min max_breadth _)\<close>;
  when the bounds are well-formed the results lie in [1, max_depth] and [2, max_breadth].
\<close>

theorem adjust_parameters_bands:
  "adjust_parameters t d b q u = adjust_parameters_spec (max_depth t) (max_breadth t) d b q u
   \<and> (1 \<le> max_depth t \<longrightarrow>
        1 \<le> fst (adjust_parameters t d b q u) \<and> fst (adjust_parameters t d b q u) \<le> max_depth t)
   \<and> (2 \<le> max_breadth t \<longrightarrow>
        2 \<le> snd (adjust_parameters t d b q u) \<and> snd (adjust_parameters t d b q u) \<le> max_breadth t)"
  by (simp add: adjust_parameters_def adjust_parameters_spec_def quality_band_deltas_def
      time_penalty_def clamp_def Let_def)

theorem adjust_parameters_bands_witness:
  "adjust_parameters (AutoTuner_init 5 8 (Some 300)) 3 4 (2/10) (8/10) = (3, 4)
   \<and> adjust_parameters_spec 5 8 3 4 (2/10) (8/10) = (3, 4)
   \<and> 1 \<le> max_depth (AutoTuner_init 5 8 (Some 300))
   \<and> 2 \<le> max_breadth (AutoTuner_init 5 8 (Some 300))"
  using adjust_parameters_bands [of "AutoTuner_init 5 8 (Some 300)" 3 4 "2/10" "8/10"]
  by (simp add: adjust_parameters_spec_def quality_band_deltas_def time_penalty_def clamp_def
      AutoTuner_init_def)

text \<open>
  C4 (as amended). Under time pressure (time usage above 0.7, in particular 0.8) neither
  parameter ever grows: each result is at most its input or sits at the lower bound.
  When the quality is at least 0.3 the decrease is strict (or the result is at the lower
  bound); when the quality is below 0.3 the band's (+1,+2) and the penalty's (-1,-2)
  cancel and the inputs are only clamped.
\<close>

theorem adjust_parameters_time_pressure:
  assumes "u > 0.7"
  shows "(fst (adjust_parameters t d b q u) \<le> d \<or> fst (adjust_parameters t d b q u) = 1)
       \<and> (snd (adjust_parameters t d b q u) \<le> b \<or> snd (adjust_parameters t d b q u) = 2)
       \<and> (0.3 \<le> q \<longrightarrow>
             (fst (adjust_parameters t d b q u) < d \<or> fst (adjust_parameters t d b q u) = 1)
           \<and> (snd (adjust_parameters t d b q u) < b \<or> snd (adjust_parameters t d b q u) = 2))
       \<and> (q < 0.3 \<longrightarrow>
             adjust_parameters t d b q u = (clamp 1 (max_depth t) d, clamp 2 (max_breadth t) b))"
  using assms by (auto simp: adjust_parameters_def clamp_def Let_def)

theorem adjust_parameters_time_pressure_witness:
  "(8/10 :: real) > 0.7 \<and> (0.3 :: real) \<le> 5/10
   \<and> adjust_parameters (AutoTuner_init 5 8 (Some 300)) 3 4 (5/10) (8/10) = (2, 3)"
  using adjust_parameters_time_pressure [of "8/10" "AutoTuner_init 5 8 (Some 300)" 3 4 "5/10"]
  by (simp add: adjust_parameters_def AutoTuner_init_def)

text \<open>
  The claim as stated fails for low quality: with depth 3, breadth 4, quality 0.2 and
  time usage 0.8 the result is (3, 4), neither smaller than the input nor at a lower bound.
\<close>

theorem adjust_parameters_time_pressure_counterexample:
  "adjust_parameters (AutoTuner_init 5 8 (Some 300)) 3 4 (2/10) (8/10) = (3, 4)
   \<and> \<not> (fst (adjust_parameters (AutoTuner_init 5 8 (Some 300)) 3 4 (2/10) (8/10)) < 3
        \<or> fst (adjust_parameters (AutoTuner_init 5 8 (Some 300)) 3 4 (2/10) (8/10)) = 1)
   \<and> \<not> (snd (adjust_parameters (AutoTuner_init 5 8 (Some 300)) 3 4 (2/10) (8/10)) < 4
        \<or> snd (adjust_parameters (AutoTuner_init 5 8 (Some 300)) 3 4 (2/10) (8/10)) = 2)"
  by (simp add: adjust_parameters_def AutoTuner_init_def)

lemma weighted_unit_interval:
  fixes x y z :: real
  assumes "0 \<le> x" "x \<le> 1" "0 \<le> y" "y \<le> 1" "0 \<le> z" "z \<le> 1"
  shows "0 \<le> x * 0.3 + y * 0.3 + z * 0.4" and "x * 0.3 + y * 0.3 + z * 0.4 \<le> 1"
  using assms by auto

text \<open>
  C10. \<open>estimate_info_quality\<close> returns a value for every list of learnings (empty
  strings included) and every list of contradictions, never an error: 0 for no
  learnings, and otherwise the weighted sum of the length, contradiction and diversity
  scores, each of which lies in [0, 1], so that the result lies in [0, 1].
\<close>

theorem estimate_info_quality_total:
  "\<exists>q. estimate_info_quality ls cs = Inr q \<and> 0 \<le> q \<and> q \<le> 1
        \<and> (ls = [] \<longrightarrow> q = 0)
        \<and> (ls \<noteq> [] \<longrightarrow> q = length_score ls * 0.3 + contradiction_score ls cs * 0.3
                                 + diversity_score ls * 0.4)
        \<and> 0 \<le> length_score ls \<and> length_score ls \<le> 1
        \<and> 0 \<le> contradiction_score ls cs \<and> contradiction_score ls cs \<le> 1
        \<and> 0 \<le> diversity_score ls \<and> diversity_score ls \<le> 1"
proof -
  have x: "0 \<le> length_score ls" "length_score ls \<le> 1"
    by (simp_all add: length_score_def)
  have y: "0 \<le> contradiction_score ls cs" "contradiction_score ls cs \<le> 1"
    by (simp_all add: contradiction_score_def)
  have z: "0 \<le> diversity_score ls" "diversity_score ls \<le> 1"
    by (simp_all add: diversity_score_def)
  show ?thesis
  proof (cases "ls = []")
    case True
    with x y z show ?thesis by (simp add: estimate_info_quality_def)
  next
    case False
    then have "estimate_info_quality ls cs =
                 Inr (length_score ls * 0.3 + contradiction_score ls cs * 0.3
                      + diversity_score ls * 0.4)"
      by (simp add: estimate_info_quality_def py_truediv_def Let_def length_score_def
          contradiction_score_def diversity_score_def)
    with weighted_unit_interval [OF x y z] x y z False show ?thesis by simp
  qed
qed

theorem estimate_info_quality_total_witness:
  "estimate_info_quality [] [] = Inr 0
   \<and> estimate_info_quality ['''', ''a b''] [] =
       Inr (length_score ['''', ''a b''] * 0.3 + contradiction_score ['''', ''a b''] [] * 0.3
            + diversity_score ['''', ''a b''] * 0.4)"
  using estimate_info_quality_total [of "[]" "[]"]
        estimate_info_quality_total [of "['''', ''a b'']" "[]"]
  by auto

section \<open>Properties of the research memory\<close>

text \<open>
  C7. Adding the same learning (or URL) a second time changes nothing. Membership is
  equality of strings; the stored list keeps its order, a new string goes to the end,
  and a list without duplicates stays so.
\<close>

theorem add_twice_idempotent:
  "add_learning s (add_learning s m) = add_learning s m
   \<and> add_url s (add_url s m) = add_url s m
   \<and> learnings (add_learning s m) = (if s \<in> set (learnings m) then learnings m else learnings m @ [s])
   \<and> visited_urls (add_url s m) = (if s \<in> set (visited_urls m) then visited_urls m else visited_urls m @ [s])
   \<and> (distinct (learnings m) \<longrightarrow> distinct (learnings (add_learning s m)))
   \<and> (distinct (visited_urls m) \<longrightarrow> distinct (visited_urls (add_url s m)))"
  by (simp add: add_learning_def add_url_def)

theorem add_twice_idempotent_witness:
  "learnings (add_learning ''a'' (add_learning ''a'' (add_learning ''b'' (ResearchMemory_init (mk_date 2024 3 15)))))
     = [''b'', ''a'']
   \<and> visited_urls (add_url ''u'' (add_url ''u'' (add_url ''v'' (ResearchMemory_init (mk_date 2024 3 15)))))
     = [''v'', ''u'']"
  using add_twice_idempotent [of "''a''" "add_learning ''b'' (ResearchMemory_init (mk_date 2024 3 15))"]
        add_twice_idempotent [of "''u''" "add_url ''v'' (ResearchMemory_init (mk_date 2024 3 15))"]
  by (simp add: add_learning_def add_url_def ResearchMemory_init_def)

section \<open>Properties of contradiction detection\<close>

lemma sublist_lower: "sublist k s \<Longrightarrow> lower k = k \<Longrightarrow> sublist k (lower s)"
  unfolding lower_def using map_mono_sublist [of k s lower_char] by simp

lemma any_inI: "k \<in> set ks \<Longrightarrow> sublist k s \<Longrightarrow> any_in ks s"
  by (auto simp: any_in_def list_ex_iff)

lemma learnings_add_contradiction [simp]:
  "learnings (add_contradiction stamp now tp c1 c2 s1 s2 m) = learnings m"
  by (simp add: add_contradiction_def add_thought_def Let_def)

lemma contradictions_add_contradiction [simp]:
  "contradictions (add_contradiction stamp now tp c1 c2 s1 s2 m) =
     contradictions m @ [\<lparr>topic = tp, claim1 = c1, claim2 = c2, source1 = s1, source2 = s2, timestamp = stamp\<rparr>]"
  by (simp add: add_contradiction_def add_thought_def Let_def)

lemma lower_performance_keyword: "kw \<in> set performance_keywords \<Longrightarrow> lower kw = kw"
  by (rule lower_keep)
     (auto simp: performance_keywords_def ascii_uppercase_def latin1_uppercase_def)

lemma learnings_event_check [simp]:
  "learnings (event_check wall new_learning existing m) = learnings m"
  by (simp add: event_check_def Let_def)

lemma learnings_layoff_check [simp]:
  "learnings (layoff_check wall new_learning existing m) = learnings m"
  by (simp add: layoff_check_def Let_def)

lemma event_check_adds:
  "\<exists>ev. contradictions (event_check wall new_learning existing m) = contradictions m @ ev
        \<and> learnings (event_check wall new_learning existing m) = learnings m
        \<and> length ev \<le> 1
        \<and> list_all (\<lambda>c. topic c = ''Event Dates'' \<and> claim1 c = existing
                         \<and> claim2 c = new_learning) ev"
  by (simp add: event_check_def Let_def)

lemma layoff_check_adds:
  "\<exists>lay. contradictions (layoff_check wall new_learning existing m) = contradictions m @ lay
        \<and> learnings (layoff_check wall new_learning existing m) = learnings m
        \<and> length lay \<le> 1
        \<and> list_all (\<lambda>c. topic c = ''Layoff Timeline'' \<and> claim1 c = existing
                         \<and> claim2 c = new_learning) lay"
  by (simp add: layoff_check_def Let_def)

text \<open>
  C8 (as amended). In a memory holding the single learning \<open>existing\<close>, which contains
  "positive" and "growth", detection on a new learning that contains "negative" and
  "decline" and shares a performance keyword with it records exactly one contradiction
  of topic "Performance", between \<open>existing\<close> and the new learning, ahead of any other
  record. What follows it is at most one record of topic "Event Dates" and then at most
  one of topic "Layoff Timeline", each between the same two learnings; there is no
  "Event Dates" record when the new learning carries no event keyword and no "Layoff
  Timeline" record when it carries no layoff keyword, so that exactly one contradiction
  is recorded when it carries neither.
\<close>

theorem detect_contradictions_performance:
  assumes one: "learnings m = [existing]"
    and ex: "sublist ''positive'' existing" "sublist ''growth'' existing"
    and new: "sublist ''negative'' new_learning" "sublist ''decline'' new_learning"
    and kw: "kw \<in> set performance_keywords" "sublist kw new_learning" "sublist kw existing"
  shows "\<exists>ev lay. contradictions (detect_contradictions wall new_learning m) =
            contradictions m
            @ [\<lparr>topic = ''Performance'', claim1 = existing, claim2 = new_learning,
                 source1 = [], source2 = [], timestamp = record_time wall m\<rparr>]
            @ ev @ lay
          \<and> length ev \<le> 1 \<and> length lay \<le> 1
          \<and> list_all (\<lambda>c. topic c = ''Event Dates'' \<and> claim1 c = existing
                           \<and> claim2 c = new_learning) ev
          \<and> list_all (\<lambda>c. topic c = ''Layoff Timeline'' \<and> claim1 c = existing
                           \<and> claim2 c = new_learning) lay
          \<and> (\<not> any_in event_keywords (lower new_learning) \<longrightarrow> ev = [])
          \<and> (\<not> any_in layoff_keywords (lower new_learning) \<longrightarrow> lay = [])"
proof -
  have p1: "any_in performance_keywords (lower new_learning)"
    using kw lower_performance_keyword by (blast intro: any_inI sublist_lower)
  have p2: "any_in performance_keywords (lower existing)"
    using kw lower_performance_keyword by (blast intro: any_inI sublist_lower)
  have lw: "lower ''negative'' = ''negative''" "lower ''positive'' = ''positive''"
    by code_simp+
  have n: "any_in negative_terms (lower new_learning)"
    by (rule any_inI [of "''negative''"]) (simp_all add: negative_terms_def sublist_lower new lw)
  have p: "any_in positive_terms (lower existing)"
    by (rule any_inI [of "''positive''"]) (simp_all add: positive_terms_def sublist_lower ex lw)
  define perf where "perf = \<lparr>topic = ''Performance'', claim1 = existing, claim2 = new_learning,
                 source1 = [], source2 = [], timestamp = record_time wall m\<rparr>"
  define m1 where "m1 = add_contradiction (record_time wall m) (thought_time wall m)
                     ''Performance'' existing new_learning [] [] m"
  define m2 where "m2 = (if any_in event_keywords (lower new_learning)
                         then event_check wall new_learning existing m1 else m1)"
  define m3 where "m3 = (if any_in layoff_keywords (lower new_learning)
                         then layoff_check wall new_learning existing m2 else m2)"
  have l1: "learnings m1 = [existing]" and c1: "contradictions m1 = contradictions m @ [perf]"
    using one by (simp_all add: m1_def perf_def)
  have "\<exists>ev. contradictions m2 = contradictions m1 @ ev \<and> learnings m2 = learnings m1
          \<and> length ev \<le> 1
          \<and> list_all (\<lambda>c. topic c = ''Event Dates'' \<and> claim1 c = existing
                           \<and> claim2 c = new_learning) ev
          \<and> (\<not> any_in event_keywords (lower new_learning) \<longrightarrow> ev = [])"
    using event_check_adds [of wall new_learning existing m1] by (auto simp: m2_def)
  then obtain ev where c2: "contradictions m2 = contradictions m1 @ ev"
    and l2: "learnings m2 = learnings m1"
    and ev: "length ev \<le> 1"
      "list_all (\<lambda>c. topic c = ''Event Dates'' \<and> claim1 c = existing \<and> claim2 c = new_learning) ev"
      "\<not> any_in event_keywords (lower new_learning) \<longrightarrow> ev = []"
    by blast
  have "\<exists>lay. contradictions m3 = contradictions m2 @ lay
          \<and> length lay \<le> 1
          \<and> list_all (\<lambda>c. topic c = ''Layoff Timeline'' \<and> claim1 c = existing
                           \<and> claim2 c = new_learning) lay
          \<and> (\<not> any_in layoff_keywords (lower new_learning) \<longrightarrow> lay = [])"
    using layoff_check_adds [of wall new_learning existing m2] by (auto simp: m3_def)
  then obtain lay where c3: "contradictions m3 = contradictions m2 @ lay"
    and lay: "length lay \<le> 1"
      "list_all (\<lambda>c. topic c = ''Layoff Timeline'' \<and> claim1 c = existing \<and> claim2 c = new_learning) lay"
      "\<not> any_in layoff_keywords (lower new_learning) \<longrightarrow> lay = []"
    by blast
  have "detect_contradictions wall new_learning m = m3"
    using one p1 p2 n p
    by (simp add: detect_contradictions_def performance_check_def Let_def m1_def m2_def m3_def)
  with c1 c2 c3 have "contradictions (detect_contradictions wall new_learning m) =
            contradictions m @ [perf] @ ev @ lay" by simp
  with ev lay show ?thesis unfolding perf_def by blast
qed

theorem detect_contradictions_performance_witness:
  "learnings (add_learning ''positive growth'' (ResearchMemory_init (mk_date 2024 3 15))) = [''positive growth'']
   \<and> sublist ''positive'' ''positive growth'' \<and> sublist ''growth'' ''positive growth''
   \<and> sublist ''negative'' ''negative decline in growth'' \<and> sublist ''decline'' ''negative decline in growth''
   \<and> ''growth'' \<in> set performance_keywords
   \<and> \<not> any_in event_keywords (lower ''negative decline in growth'')
   \<and> \<not> any_in layoff_keywords (lower ''negative decline in growth'')
   \<and> contradictions (detect_contradictions (\<lambda>k. (''2024-03-15T09:30:00.000250'', ''2024-03-15 09:30:00''))
         ''negative decline in growth''
         (add_learning ''positive growth'' (ResearchMemory_init (mk_date 2024 3 15))))
       = [\<lparr>topic = ''Performance'', claim1 = ''positive growth'',
            claim2 = ''negative decline in growth'', source1 = [], source2 = [],
            timestamp = ''2024-03-15T09:30:00.000250''\<rparr>]"
proof -
  let ?m = "add_learning ''positive growth'' (ResearchMemory_init (mk_date 2024 3 15))"
  let ?wall = "\<lambda>k::nat. (''2024-03-15T09:30:00.000250'', ''2024-03-15 09:30:00'')"
  have one: "learnings ?m = [''positive growth'']"
    by (simp add: add_learning_def ResearchMemory_init_def)
  have c0: "contradictions ?m = []"
    by (simp add: add_learning_def ResearchMemory_init_def)
  have ex: "sublist ''positive'' ''positive growth''" "sublist ''growth'' ''positive growth''"
    by code_simp+
  have new: "sublist ''negative'' ''negative decline in growth''"
    "sublist ''decline'' ''negative decline in growth''"
    "sublist ''growth'' ''negative decline in growth''"
    by code_simp+
  have kw: "''growth'' \<in> set performance_keywords"
    by (simp add: performance_keywords_def)
  have no: "\<not> any_in event_keywords (lower ''negative decline in growth'')"
    "\<not> any_in layoff_keywords (lower ''negative decline in growth'')"
    by code_simp+
  from detect_contradictions_performance [OF one ex new(1,2) kw new(3) ex(2), of ?wall] no c0
  show ?thesis using one ex new kw by (auto simp: record_time_def)
qed

text \<open>
  The claim as stated fails: the three keyword families are checked independently, so
  a pair of learnings that also carries layoff (or event) keywords yields a second record.
\<close>

theorem detect_contradictions_exactly_one_counterexample:
  "learnings (add_learning ''positive growth, layoff plan'' (ResearchMemory_init (mk_date 2024 3 15)))
     = [''positive growth, layoff plan'']
   \<and> sublist ''positive'' ''positive growth, layoff plan''
   \<and> sublist ''growth'' ''positive growth, layoff plan''
   \<and> sublist ''negative'' ''negative decline in growth, layoff completed''
   \<and> sublist ''decline'' ''negative decline in growth, layoff completed''
   \<and> sublist ''growth'' ''negative decline in growth, layoff completed''
   \<and> ''growth'' \<in> set performance_keywords
   \<and> map topic (contradictions (detect_contradictions
         (\<lambda>k. (''2024-03-15T09:30:00.000250'', ''2024-03-15 09:30:00''))
         ''negative decline in growth, layoff completed''
         (add_learning ''positive growth, layoff plan'' (ResearchMemory_init (mk_date 2024 3 15)))))
       = [''Performance'', ''Layoff Timeline'']"
  by code_simp


section \<open>Properties of the engine and the entry point\<close>

lemma iterations_think [simp]: "iterations (think P t eng) = iterations eng"
  by (simp add: think_def)

lemma iterations_update_progress [simp]: "iterations (update_progress f eng) = iterations eng"
  by (simp add: update_progress_def)

lemma iterations_foldl:
  assumes "\<And>e x. iterations (f e x) = iterations e"
  shows "iterations (foldl f eng xs) = iterations eng"
  using assms by (induction xs arbitrary: eng) simp_all

lemma iterations_foldl_think [simp]:
  "iterations (foldl (\<lambda>eng (i, x). think P (f i x) eng) eng xs) = iterations eng"
  by (rule iterations_foldl) (simp add: case_prod_beta)

lemma iterations_generate_serp_queries [simp]:
  "iterations (snd (generate_serp_queries P q n eng)) = iterations eng"
  by (auto simp: generate_serp_queries_def Let_def split: sum.splits prod.splits)

lemma iterations_failed_query [simp]: "iterations (snd (failed_query P sq e eng)) = iterations eng"
  by (simp add: failed_query_def)

lemma iterations_execute_query [simp]:
  "iterations (snd (execute_query P sq d b eng)) = iterations eng"
  by (auto simp: execute_query_def Let_def split: sum.splits option.splits prod.splits)

lemma execute_each_shallow:
  "d \<le> 1 \<Longrightarrow> \<exists>eng'. execute_each n P qs d b eng = Some (Inr eng') \<and> iterations eng' = iterations eng"
proof (induction qs arbitrary: eng)
  case Nil
  then show ?case by simp
next
  case (Cons sq rest)
  obtain r eng1 where q: "execute_query P sq d b eng = (r, eng1)"
    by (cases "execute_query P sq d b eng")
  have "iterations (snd (execute_query P sq d b eng)) = iterations eng"
    by simp
  then have "iterations eng1 = iterations eng"
    unfolding q by simp
  moreover from Cons.IH [OF Cons.prems, of "update_progress (\<lambda>p. p\<lparr>completed_queries := completed_queries p + 1\<rparr>) eng1"]
  obtain eng' where "execute_each n P rest d b
      (update_progress (\<lambda>p. p\<lparr>completed_queries := completed_queries p + 1\<rparr>) eng1) = Some (Inr eng')"
    and "iterations eng' = iterations eng1" by auto
  ultimately show ?case using Cons.prems q by (simp add: Let_def)
qed

lemma execute_research_iteration_shallow:
  assumes "d \<le> 1"
  shows "\<exists>eng'. execute_research_iteration (Suc n) P q d b eng = Some (Inr eng')
           \<and> iterations eng' = iterations eng @ [(q, d, b)]"
proof -
  define e0 where "e0 = think P (''Iteration query: '' @ q)
               (think P (''Starting research iteration at depth '' @ str_int d
                         @ '' with breadth '' @ str_int b)
                  (eng\<lparr>iterations := iterations eng @ [(q, d, b)]\<rparr>))"
  obtain qs eng1 where g: "generate_serp_queries P q b e0 = (qs, eng1)"
    by (cases "generate_serp_queries P q b e0") auto
  have "iterations (snd (generate_serp_queries P q b e0)) = iterations e0"
    by simp
  then have "iterations eng1 = iterations e0"
    unfolding g by simp
  then have i1: "iterations eng1 = iterations eng @ [(q, d, b)]"
    by (simp add: e0_def)
  have unfold: "execute_research_iteration (Suc n) P q d b eng =
      (if qs = []
       then Some (Inr (think P ''Failed to generate search queries. Ending this research path.'' eng1))
       else execute_each n P qs d b
              (update_progress (\<lambda>p. p\<lparr>total_queries := total_queries p + int (length qs)\<rparr>) eng1))"
    using g unfolding execute_research_iteration.simps Let_def e0_def [symmetric] by simp
  show ?thesis
  proof (cases "qs = []")
    case True
    with unfold i1 show ?thesis by simp
  next
    case False
    from execute_each_shallow [OF assms, of n P qs b
        "update_progress (\<lambda>p. p\<lparr>total_queries := total_queries p + int (length qs)\<rparr>) eng1"]
    show ?thesis using unfold i1 False by auto
  qed
qed

lemma iterations_determine_auto_parameters [simp]:
  "iterations (snd (determine_auto_parameters P q eng)) = iterations eng"
  by (simp add: determine_auto_parameters_def Let_def case_prod_beta split: option.splits)

lemma py_or_one [simp]: "py_or (Some 1) x = 1"
  by (simp add: py_or_def)

lemma engine_deep_research_depth_one:
  assumes "fuel \<noteq> 0"
  shows "\<exists>res eng' b. engine_deep_research fuel P q breadth (Some 1) eng = Some (Inr (res, eng'))
           \<and> iterations eng' = iterations eng @ [(q, 1, b)]"
proof -
  obtain n where n: "fuel = Suc n" using assms by (cases fuel) auto
  define pre where "pre =
     (if auto_tune eng \<and> (breadth = None \<or> Some (1::int) = None)
      then let ((auto_depth, auto_breadth), eng) = determine_auto_parameters P q eng
           in ((py_or (Some 1) auto_depth, py_or breadth auto_breadth), eng)
      else ((py_or (Some 1) 2, py_or breadth 4), eng))"
  obtain dd bb e0 where pre: "pre = ((dd, bb), e0)" by (cases pre) auto
  have "iterations (snd (determine_auto_parameters P q eng)) = iterations eng"
    by simp
  then have dd: "dd = 1" and e0: "iterations e0 = iterations eng"
    using pre by (auto simp: pre_def case_prod_beta Let_def split: if_splits)
  define e1 where "e1 = e0\<lparr>progress := Some (ResearchProgress_init dd bb)\<rparr>"
  define e2 where "e2 = (case auto_tuner e1 of
                   Some tuner \<Rightarrow>
                     if auto_tune e1
                     then e1\<lparr>auto_tuner := Some (tuner\<lparr>start_time := Some (loop_clock P (world e1))\<rparr>)\<rparr>
                     else e1
                 | None \<Rightarrow> e1)"
  define e3 where "e3 =
     (let eng = think P (''Starting deep research on: '' @ q) e2;
          eng = think P (''Research parameters - Breadth: '' @ str_int bb
                         @ '', Depth: '' @ str_int dd) eng
      in think P (''Current date context: '' @ format_date P (current_date (memory eng))) eng)"
  have i3: "iterations e3 = iterations eng"
    using e0 by (simp add: e3_def e2_def e1_def Let_def split: option.splits)
  from execute_research_iteration_shallow [of dd n P q bb e3] dd
  obtain e4 where e4: "execute_research_iteration fuel P q dd bb e3 = Some (Inr e4)"
    and i4: "iterations e4 = iterations e3 @ [(q, dd, bb)]" unfolding n by auto
  have "engine_deep_research fuel P q breadth (Some 1) eng =
          (case execute_research_iteration fuel P q dd bb e3 of
             None \<Rightarrow> None
           | Some (Inl e) \<Rightarrow> Some (Inl e)
           | Some (Inr eng) \<Rightarrow>
               let eng = think P ''Research process completed'' eng
               in Some (Inr (memory_snapshot (memory eng), eng)))"
    unfolding engine_deep_research_def pre_def [symmetric] pre
    by (simp only: Let_def case_prod_conv e3_def e2_def e1_def)
  then have "engine_deep_research fuel P q breadth (Some 1) eng
          = Some (Inr (memory_snapshot (memory (think P ''Research process completed'' e4)),
                       think P ''Research process completed'' e4))"
    unfolding e4 by (simp add: Let_def)
  then show ?thesis using i4 i3 dd by simp
qed


lemma ResearchEngine_init_cases:
  "ResearchEngine_init environ today w tune md mb tbs = Inl (KeyError ''LLM_MODEL_NAME'')
   \<or> (\<exists>eng. ResearchEngine_init environ today w tune md mb tbs = Inr eng \<and> iterations eng = [])"
  by (simp add: ResearchEngine_init_def split: option.splits)

text \<open>
  C2. A run started with depth 1 enters \<open>execute_research_iteration\<close> exactly once,
  whatever the collaborators return (however many follow-up questions), with or without
  auto-tuning and for any breadth: any nesting bound of at least one suffices for the run
  to return, and the only recorded entry is the top-level one. Through the public entry
  point the same holds, unless the engine cannot be constructed, in which case no
  iteration is entered at all.
\<close>

theorem depth_one_never_recurses:
  assumes "fuel \<noteq> 0"
  shows "(\<exists>res eng' b. engine_deep_research fuel P q breadth (Some 1) eng = Some (Inr (res, eng'))
            \<and> iterations eng' = iterations eng @ [(q, 1, b)])
       \<and> (run_engine fuel P environ today w q breadth (Some 1) tune md mb tbs
              = Some (Inl (KeyError ''LLM_MODEL_NAME''))
          \<or> (\<exists>res eng' b. run_engine fuel P environ today w q breadth (Some 1) tune md mb tbs
                = Some (Inr (res, eng')) \<and> iterations eng' = [(q, 1, b)]))"
proof
  show "\<exists>res eng' b. engine_deep_research fuel P q breadth (Some 1) eng = Some (Inr (res, eng'))
            \<and> iterations eng' = iterations eng @ [(q, 1, b)]"
    by (rule engine_deep_research_depth_one [OF assms])
next
  from ResearchEngine_init_cases [of environ today w tune md mb tbs]
  show "run_engine fuel P environ today w q breadth (Some 1) tune md mb tbs
              = Some (Inl (KeyError ''LLM_MODEL_NAME''))
          \<or> (\<exists>res eng' b. run_engine fuel P environ today w q breadth (Some 1) tune md mb tbs
                = Some (Inr (res, eng')) \<and> iterations eng' = [(q, 1, b)])"
  proof
    assume "ResearchEngine_init environ today w tune md mb tbs = Inl (KeyError ''LLM_MODEL_NAME'')"
    then show ?thesis by (simp add: run_engine_def)
  next
    assume "\<exists>eng. ResearchEngine_init environ today w tune md mb tbs = Inr eng \<and> iterations eng = []"
    then obtain eng where eng: "ResearchEngine_init environ today w tune md mb tbs = Inr eng"
      and nil: "iterations eng = []" by auto
    from engine_deep_research_depth_one [OF assms, of P q breadth eng] nil
    show ?thesis by (simp add: run_engine_def eng)
  qed
qed

theorem depth_one_never_recurses_witness:
  "(1::nat) \<noteq> 0
   \<and> (\<exists>res eng' b. engine_deep_research 1 example_providers ''q'' (Some 3) (Some 1) example_engine
          = Some (Inr (res, eng'))
        \<and> iterations eng' = [(''q'', 1, b)])"
  using depth_one_never_recurses [of 1 example_providers "''q''" "Some 3" example_engine]
  by (simp add: example_engine_def)

text \<open>
  C1. When the engine cannot be constructed (the environment does not name the model),
  the entry point returns the dictionary of its \<open>except\<close> branch, for every other
  argument: \<open>learnings\<close> holds the one error string and \<open>chain_of_thought\<close> the
  critical failure, but the keys \<open>information_map\<close>, \<open>contradictions\<close> and
  \<open>source_evaluations\<close> are absent.
\<close>

theorem deep_research_degraded_result:
  "deep_research fuel P Map.empty today w q breadth depth tune md mb tbs
     = Some [(''learnings'', Strings [''Research error: '' @ [CHR 0x27] @ ''LLM_MODEL_NAME'' @ [CHR 0x27]]),
             (''visited_urls'', Strings []),
             (''chain_of_thought'', Strings [''Critical error in research process: ''
                  @ [CHR 0x27] @ ''LLM_MODEL_NAME'' @ [CHR 0x27]])]
   \<and> map_option (\<lambda>r. map_of r ''information_map'')
        (deep_research fuel P Map.empty today w q breadth depth tune md mb tbs) = Some None
   \<and> map_option (\<lambda>r. map_of r ''contradictions'')
        (deep_research fuel P Map.empty today w q breadth depth tune md mb tbs) = Some None
   \<and> map_option (\<lambda>r. map_of r ''source_evaluations'')
        (deep_research fuel P Map.empty today w q breadth depth tune md mb tbs) = Some None"
  by (simp add: deep_research_def run_engine_def ResearchEngine_init_def error_result_def)

section \<open>Properties of the content classifier\<close>

subsection \<open>Shapes of what the patterns capture\<close>

lemma lit_match_sound:
  "lit_match ic p s = Some s' \<Longrightarrow>
     \<exists>pre. s = pre @ s' \<and> (if ic then map lower_char pre = map lower_char p else pre = p)"
proof (induction ic p s rule: lit_match.induct)
  case (1 ic s)
  then show ?case by simp
next
  case (2 ic p ps)
  then show ?case by simp
next
  case (3 ic p ps c cs)
  then obtain pre where "cs = pre @ s'"
    "if ic then map lower_char pre = map lower_char ps else pre = ps"
    "if ic then lower_char p = lower_char c else p = c"
    by (auto split: if_splits)
  then show ?case by (intro exI [of _ "c # pre"]) (auto split: if_splits)
qed

lemma derives_suffix: "derives ic r s s' gs gs' \<Longrightarrow> \<exists>pre. s = pre @ s'"
proof (induction rule: derives.induct)
  case (d_Lit ic p s s' gs)
  then show ?case using lit_match_sound by blast
next
  case (d_Seq ic r1 s s1 gs gs1 r2 s2 gs2)
  then show ?case by auto
qed auto

lemma take_consumed [simp]: "take (length (pre @ s') - length s') (pre @ s') = pre"
  by simp




lemma lit_20:
  assumes "lit_match ic ''20'' s = Some s'"
  shows "s = ''20'' @ s'"
proof -
  from lit_match_sound [OF assms] obtain pre where pre: "s = pre @ s'"
    and eq: "if ic then map lower_char pre = map lower_char ''20'' else pre = ''20''" by blast
  have l20: "map lower_char ''20'' = ''20''"
    using lower_keep [of "''20''"]
    by (simp add: lower_def ascii_uppercase_def latin1_uppercase_def)
  have "pre = ''20''"
  proof (cases ic)
    case True
    with eq l20 have "map lower_char pre = ''20''" by simp
    then obtain a b where ab: "pre = [a, b]" "lower_char a = CHR ''2''" "lower_char b = CHR ''0''"
      by (auto simp: map_eq_Cons_conv)
    then have "a = CHR ''2''" "b = CHR ''0''"
      by (auto dest!: lower_char_fixed simp: ascii_lowercase_def latin1_lowercase_def)
    with ab show ?thesis by simp
  next
    case False
    with eq show ?thesis by simp
  qed
  with pre show ?thesis by simp
qed

lemma derives_year_shape:
  assumes "derives ic (Group (seqs [Lit ''20'', Ch (OneOf ds), Ch (OneOf ascii_digits)])) s s' gs gs'"
  shows "\<exists>d1 d2. gs' = gs @ [''20'' @ [d1, d2]] \<and> d1 \<in> set ds \<and> d2 \<in> set ascii_digits"
proof -
  from assms obtain s1 d1 d2 where "lit_match ic ''20'' s = Some s1" "s1 = d1 # d2 # s'"
    "d1 \<in> set ds" "d2 \<in> set ascii_digits"
    and gs': "gs' = gs @ [take (length s - length s') s]"
    by auto
  with lit_20 have "s = (''20'' @ [d1, d2]) @ s'" by fastforce
  then have "take (length s - length s') s = ''20'' @ [d1, d2]"
    using take_consumed [of "''20'' @ [d1, d2]" s'] by simp
  with gs' \<open>d1 \<in> set ds\<close> \<open>d2 \<in> set ascii_digits\<close> show ?thesis by blast
qed


lemma digit_value_range: "d \<in> set ascii_digits \<Longrightarrow> 0 \<le> digit_value d \<and> digit_value d \<le> 9"
  by (auto simp: ascii_digits_def digit_value_def)

lemma py_int_year:
  assumes "d1 \<in> set ascii_digits" "d2 \<in> set ascii_digits"
  shows "py_int (''20'' @ [d1, d2]) = Inr (2000 + 10 * digit_value d1 + digit_value d2)"
proof -
  have "CHR ''2'' \<in> set ascii_digits" "CHR ''0'' \<in> set ascii_digits"
    "digit_value (CHR ''2'') = 2" "digit_value (CHR ''0'') = 0"
    by (simp_all add: ascii_digits_def digit_value_def)
  with assms show ?thesis by (simp add: py_int_def)
qed














lemma lit_match_plain:
  assumes "lit_match ic p s = Some s'"
    and "set p \<inter> set (ascii_uppercase @ latin1_uppercase) = {}"
    and "set p \<inter> set (ascii_lowercase @ latin1_lowercase) = {}"
  shows "s = p @ s'"
proof -
  from lit_match_sound [OF assms(1)] obtain pre where pre: "s = pre @ s'"
    and eq: "if ic then map lower_char pre = map lower_char p else pre = p" by blast
  have same: "lower_char c = c" if "c \<in> set p" for c
    using that assms(2) by (intro lower_char_keep) blast
  have "pre = p"
  proof (cases ic)
    case True
    with eq have "map lower_char pre = map lower_char p" by simp
    also have "map lower_char p = p" using same by (simp add: map_idI)
    finally have m: "map lower_char pre = p" .
    have "\<forall>i < length pre. pre ! i = p ! i"
    proof (intro allI impI)
      fix i assume i: "i < length pre"
      from m have len: "length pre = length p" by (metis length_map)
      from m i have "lower_char (pre ! i) = p ! i" by (metis nth_map)
      moreover have "p ! i \<notin> set (ascii_lowercase @ latin1_lowercase)"
        using assms(3) i len by (metis Int_iff empty_iff nth_mem)
      ultimately show "pre ! i = p ! i" by (rule lower_char_fixed)
    qed
    moreover from m have "length pre = length p" by (metis length_map)
    ultimately show ?thesis by (simp add: list_eq_iff_nth_eq)
  next
    case False
    with eq show ?thesis by simp
  qed
  with pre show ?thesis by simp
qed

lemma derives_horizon_group:
  "derives ic horizon_group s s' gs gs' \<Longrightarrow> \<exists>g. gs' = gs @ [g]"
  unfolding horizon_group_def by auto

lemma derives_decimal_group:
  assumes "derives True decimal_group s s' gs gs'"
  shows "\<exists>g. gs' = gs @ [g] \<and> CHR ''.'' \<in> set g"
proof -
  from assms obtain pre1 s1 s2 pre2 where "s = pre1 @ s1" "lit_match True ''.'' s1 = Some s2"
    "s2 = pre2 @ s'" and m: "gs' = gs @ [take (length s - length s') s]"
    unfolding decimal_group_def by (auto simp: derives_Greedy)
  moreover from this have "s1 = ''.'' @ s2"
    by (intro lit_match_plain [of True])
       (auto simp: ascii_uppercase_def ascii_lowercase_def latin1_uppercase_def latin1_lowercase_def)
  ultimately have "s = (pre1 @ ''.'' @ pre2) @ s'" by simp
  then have "take (length s - length s') s = pre1 @ ''.'' @ pre2"
    using take_consumed [of "pre1 @ ''.'' @ pre2" s'] by simp
  with m show ?thesis by simp
qed

lemma projection_groups:
  assumes "match_at long_term_projection_pattern s = Some m"
  shows "\<exists>g1 d1 d2 g3. snd m = [g1, ''20'' @ [d1, d2], g3] \<and> d1 \<in> set ''3456789''
           \<and> d2 \<in> set ascii_digits \<and> CHR ''.'' \<in> set g3"
proof -
  have ic: "ignorecase long_term_projection_pattern = True"
    by (simp add: long_term_projection_pattern_def)
  from match_at_sound [OF assms] obtain s' where
    "derives True (body long_term_projection_pattern) s s' [] (snd m)"
    unfolding ic by blast
  then have "\<exists>s1 gs1 s3 s4 s5 gs2. derives True horizon_group s s1 [] gs1
     \<and> derives True far_year_group s3 s4 gs1 gs2
     \<and> derives True decimal_group s5 s' gs2 (snd m)"
    by (simp add: long_term_projection_pattern_def derives_Greedy) blast
  then obtain s1 gs1 s3 s4 s5 gs2 where h: "derives True horizon_group s s1 [] gs1"
    and y: "derives True far_year_group s3 s4 gs1 gs2"
    and l: "derives True decimal_group s5 s' gs2 (snd m)"
    by blast
  from derives_horizon_group [OF h] obtain g1 where "gs1 = [g1]" by auto
  moreover from derives_year_shape [OF y [unfolded far_year_group_def]]
  obtain d1 d2 where "gs2 = gs1 @ [''20'' @ [d1, d2]]" "d1 \<in> set ''3456789''"
    "d2 \<in> set ascii_digits" by auto
  moreover from derives_decimal_group [OF l] obtain g3 where "snd m = gs2 @ [g3]"
    "CHR ''.'' \<in> set g3" by auto
  ultimately show ?thesis by simp
qed

lemma projection_year_range:
  assumes "d1 \<in> set ''3456789''" "d2 \<in> set ascii_digits"
  shows "\<exists>y. py_int (''20'' @ [d1, d2]) = Inr y \<and> 2030 \<le> y \<and> y \<le> 2099"
proof -
  have d1: "d1 \<in> set ascii_digits" "3 \<le> digit_value d1"
    using assms(1) by (auto simp: ascii_digits_def digit_value_def)
  show ?thesis
    using py_int_year [OF d1(1) assms(2)] d1(2) digit_value_range [OF d1(1)]
      digit_value_range [OF assms(2)] by auto
qed

lemma finditer_projection_groups:
  assumes "m \<in> set (finditer long_term_projection_pattern text)"
  shows "\<exists>g1 g2 g3 y. snd m = [g1, g2, g3] \<and> projected_year m = Some y
           \<and> 2030 \<le> y \<and> y \<le> 2099 \<and> CHR ''.'' \<in> set g3"
proof -
  from finditer_sound [OF assms] projection_groups
  obtain g1 d1 d2 g3 where gs: "snd m = [g1, ''20'' @ [d1, d2], g3]"
    and d: "d1 \<in> set ''3456789''" "d2 \<in> set ascii_digits" and dot: "CHR ''.'' \<in> set g3"
    by blast
  from projection_year_range [OF d] obtain y where "py_int (''20'' @ [d1, d2]) = Inr y"
    "2030 \<le> y" "y \<le> 2099" by blast
  with gs dot show ?thesis by (simp add: projected_year_def group_def)
qed

lemma numerical_loop_find:
  assumes "\<forall>m \<in> set ms. \<exists>g1 g2 g3 y. snd m = [g1, g2, g3] \<and> projected_year m = Some y"
  shows "numerical_loop current ms =
           Inr (map_option (\<lambda>m. (False, precision_message m (the (projected_year m) - year current)))
                  (find (long_horizon_precise current) ms))"
  using assms
proof (induction ms)
  case Nil
  then show ?case by simp
next
  case (Cons m ms)
  from Cons.prems obtain g1 g2 g3 y where "snd m = [g1, g2, g3]" "projected_year m = Some y"
    by auto
  with Cons show ?case
    by (auto simp: err_bind_def long_horizon_precise_def projected_year_def group_def
        remove_commas_def Let_def split: sum.splits)
qed

lemma validate_numerical_reasonableness_find:
  "validate_numerical_reasonableness current text =
     (case find (long_horizon_precise current) (finditer long_term_projection_pattern text) of
        Some m \<Rightarrow> Inr (False, precision_message m (the (projected_year m) - year current))
      | None \<Rightarrow> Inr (True, ''No unreasonable numerical projections detected''))"
proof -
  have "\<forall>m \<in> set (finditer long_term_projection_pattern text).
          \<exists>g1 g2 g3 y. snd m = [g1, g2, g3] \<and> projected_year m = Some y"
    using finditer_projection_groups by blast
  from numerical_loop_find [OF this] show ?thesis
    by (simp add: validate_numerical_reasonableness_def err_bind_def split: option.splits)
qed

lemma projection_example_flagged:
  assumes "year current = 2024"
  shows "validate_numerical_reasonableness current
       ''By 2035, the market will reach exactly $42.75 billion'' =
     Inr (False, ''Unreasonable precision: '' @ [CHR 0x27]
                 @ ''By 2035, the market will reach exactly $42.75'' @ [CHR 0x27]
                 @ '' has decimal precision for a 11-year forecast'')"
proof -
  let ?m = "(''By 2035, the market will reach exactly $42.75'', [''By'', ''2035'', ''2.75''])"
  have ms: "finditer long_term_projection_pattern
              ''By 2035, the market will reach exactly $42.75 billion'' = [?m]"
    by code_simp
  have y: "projected_year ?m = Some 2035" by code_simp
  have g: "group ?m 3 = Inr ''2.75''" by code_simp
  have n: "str_int 11 = ''11''" by code_simp
  have "long_horizon_precise current ?m"
    using assms by (simp add: long_horizon_precise_def y g)
  then show ?thesis
    unfolding validate_numerical_reasonableness_find ms
    using assms by (simp add: y precision_message_def n)
qed

lemma projection_example_ok:
  "validate_numerical_reasonableness current ''By 2026, $2 billion'' =
     Inr (True, ''No unreasonable numerical projections detected'')"
proof -
  have ms: "finditer long_term_projection_pattern ''By 2026, $2 billion'' = []"
    by code_simp
  show ?thesis
    unfolding validate_numerical_reasonableness_find ms by simp
qed

text \<open>
  C6. For every text and reference date the check never raises, and it rejects the text
  exactly when some match of the projection pattern has a year more than 10 years after
  the reference date's year and a numeric literal containing a decimal point; the first
  such match decides the message. Every match has a year in 2030..2099 and a literal with
  a decimal point. With a reference year 2024, "By 2035, the market will reach exactly
  $42.75 billion" is rejected and "By 2026, $2 billion" is accepted.
\<close>

theorem validate_numerical_reasonableness_scan:
  "(year current = 2024 \<longrightarrow>
      validate_numerical_reasonableness current
          ''By 2035, the market will reach exactly $42.75 billion'' =
        Inr (False, ''Unreasonable precision: '' @ [CHR 0x27]
                    @ ''By 2035, the market will reach exactly $42.75'' @ [CHR 0x27]
                    @ '' has decimal precision for a 11-year forecast''))
   \<and> validate_numerical_reasonableness current ''By 2026, $2 billion'' =
        Inr (True, ''No unreasonable numerical projections detected'')
   \<and> validate_numerical_reasonableness current text =
        (case find (long_horizon_precise current) (finditer long_term_projection_pattern text) of
           Some m \<Rightarrow> Inr (False, precision_message m (the (projected_year m) - year current))
         | None \<Rightarrow> Inr (True, ''No unreasonable numerical projections detected''))
   \<and> ((\<exists>msg. validate_numerical_reasonableness current text = Inr (False, msg))
        = (\<exists>m \<in> set (finditer long_term_projection_pattern text). long_horizon_precise current m))
   \<and> (\<forall>m \<in> set (finditer long_term_projection_pattern text).
         \<exists>g1 g2 g3 y. snd m = [g1, g2, g3] \<and> projected_year m = Some y
            \<and> 2030 \<le> y \<and> y \<le> 2099 \<and> CHR ''.'' \<in> set g3)"
proof (intro conjI impI ballI)
  assume "year current = 2024"
  then show "validate_numerical_reasonableness current
          ''By 2035, the market will reach exactly $42.75 billion'' =
        Inr (False, ''Unreasonable precision: '' @ [CHR 0x27]
                    @ ''By 2035, the market will reach exactly $42.75'' @ [CHR 0x27]
                    @ '' has decimal precision for a 11-year forecast'')"
    by (rule projection_example_flagged)
next
  show "validate_numerical_reasonableness current ''By 2026, $2 billion'' =
        Inr (True, ''No unreasonable numerical projections detected'')"
    by (rule projection_example_ok)
next
  show "validate_numerical_reasonableness current text =
        (case find (long_horizon_precise current) (finditer long_term_projection_pattern text) of
           Some m \<Rightarrow> Inr (False, precision_message m (the (projected_year m) - year current))
         | None \<Rightarrow> Inr (True, ''No unreasonable numerical projections detected''))"
    by (rule validate_numerical_reasonableness_find)
next
  show "(\<exists>msg. validate_numerical_reasonableness current text = Inr (False, msg))
        = (\<exists>m \<in> set (finditer long_term_projection_pattern text). long_horizon_precise current m)"
    unfolding validate_numerical_reasonableness_find
    by (auto simp: find_None_iff find_Some_iff split: option.splits)
next
  fix m assume "m \<in> set (finditer long_term_projection_pattern text)"
  then show "\<exists>g1 g2 g3 y. snd m = [g1, g2, g3] \<and> projected_year m = Some y
            \<and> 2030 \<le> y \<and> y \<le> 2099 \<and> CHR ''.'' \<in> set g3"
    by (rule finditer_projection_groups)
qed

theorem validate_numerical_reasonableness_scan_witness:
  "year (mk_date 2024 3 15) = 2024
   \<and> finditer long_term_projection_pattern ''in 2031 we get 1.5 and then, much later on, by 2044 sales reach 3.25''
       = [(''in 2031 we get 1.5'', [''in'', ''2031'', ''1.5'']),
          (''by 2044 sales reach 3.25'', [''by'', ''2044'', ''3.25''])]
   \<and> \<not> long_horizon_precise (mk_date 2024 3 15) (''in 2031 we get 1.5'', [''in'', ''2031'', ''1.5''])
   \<and> long_horizon_precise (mk_date 2024 3 15) (''by 2044 sales reach 3.25'', [''by'', ''2044'', ''3.25''])
   \<and> validate_numerical_reasonableness (mk_date 2024 3 15)
        ''in 2031 we get 1.5 and then, much later on, by 2044 sales reach 3.25''
       = Inr (False, ''Unreasonable precision: '' @ [CHR 0x27] @ ''by 2044 sales reach 3.25''
              @ [CHR 0x27] @ '' has decimal precision for a 20-year forecast'')
   \<and> validate_numerical_reasonableness (mk_date 2024 3 15)
          ''By 2035, the market will reach exactly $42.75 billion'' =
        Inr (False, ''Unreasonable precision: '' @ [CHR 0x27]
                    @ ''By 2035, the market will reach exactly $42.75'' @ [CHR 0x27]
                    @ '' has decimal precision for a 11-year forecast'')"
proof -
  let ?t = "''in 2031 we get 1.5 and then, much later on, by 2044 sales reach 3.25''"
  let ?m1 = "(''in 2031 we get 1.5'', [''in'', ''2031'', ''1.5''])"
  let ?m2 = "(''by 2044 sales reach 3.25'', [''by'', ''2044'', ''3.25''])"
  have y: "year (mk_date 2024 3 15) = 2024" by (simp add: mk_date_def)
  have ms: "finditer long_term_projection_pattern ?t = [?m1, ?m2]" by code_simp
  have f1: "\<not> long_horizon_precise (mk_date 2024 3 15) ?m1" by code_simp
  have f2: "long_horizon_precise (mk_date 2024 3 15) ?m2" by code_simp
  have msg: "precision_message ?m2 (the (projected_year ?m2) - 2024)
       = ''Unreasonable precision: '' @ [CHR 0x27] @ ''by 2044 sales reach 3.25''
              @ [CHR 0x27] @ '' has decimal precision for a 20-year forecast''"
    by code_simp
  from validate_numerical_reasonableness_scan [of "mk_date 2024 3 15" ?t] y ms f1 f2 msg
  show ?thesis by simp
qed


lemma scheduled_test_text:
  "validate_temporal_consistency (mk_date 2024 3 15)
     ''IBM has scheduled a major quantum computing announcement for January 2023.'' =
     Inr (False, ''Temporal inconsistency: '' @ [CHR 0x27]
           @ ''scheduled a major quantum computing announcement for January 2023''
           @ [CHR 0x27] @ '' refers to a scheduled event that should have already occurred'')"
  by code_simp





section \<open>Properties of the complexity analysis\<close>

subsection \<open>The entity pattern\<close>

lemma rep_greedy_none:
  "(case s of [] \<Rightarrow> True | d # _ \<Rightarrow> \<not> accepts a d) \<Longrightarrow> rep_greedy a (Suc n) mx s k = None"
  by (cases s) auto

lemma rep_greedy_munch:
  assumes "k (dropWhile (accepts a) s) = Some r" "mn \<le> length (takeWhile (accepts a) s)"
  shows "rep_greedy a mn None s k = Some r"
  using assms
proof (induction s arbitrary: mn)
  case Nil
  then show ?case by simp
next
  case (Cons c cs)
  show ?case
  proof (cases "accepts a c")
    case True
    with Cons.prems have "k (dropWhile (accepts a) cs) = Some r"
      "mn - 1 \<le> length (takeWhile (accepts a) cs)" by auto
    from Cons.IH [OF this] True show ?thesis by (simp add: dec_def)
  next
    case False
    with Cons.prems show ?thesis by simp
  qed
qed

lemma rep_greedy_fail:
  assumes "\<And>t. suffix t s \<Longrightarrow> suffix (dropWhile (accepts a) s) t \<Longrightarrow> k t = None"
  shows "rep_greedy a mn None s k = None"
  using assms
proof (induction s arbitrary: mn)
  case Nil
  then show ?case by simp
next
  case (Cons c cs)
  have here: "k (c # cs) = None"
    by (rule Cons.prems) (auto intro: suffix_ConsI suffix_dropWhile)
  show ?case
  proof (cases "accepts a c")
    case True
    have "rep_greedy a (mn - 1) None cs k = None"
    proof (rule Cons.IH)
      fix t assume "suffix t cs" "suffix (dropWhile (accepts a) cs) t"
      with True show "k t = None"
        by (intro Cons.prems) (auto intro: suffix_ConsI)
    qed
    with True here show ?thesis by (simp add: dec_def)
  next
    case False
    with here show ?thesis by simp
  qed
qed


lemma accepts_lower [simp]: "accepts (OneOf ascii_lowercase) = is_lower"
  by (rule ext) (simp add: is_lower_def)

lemma accepts_upper [simp]: "accepts (OneOf ascii_uppercase) = is_upper"
  by (rule ext) (simp add: is_upper_def)

lemma upper_not_lower: "is_upper c \<Longrightarrow> \<not> is_lower c"
  by (auto simp: is_upper_def is_lower_def ascii_uppercase_def ascii_lowercase_def)

lemma sep_not_letter [simp]:
  "\<not> is_lower (CHR '' '')" "\<not> is_lower (CHR ''.'')" "\<not> is_upper (CHR '' '')" "\<not> is_upper (CHR ''.'')"
  by (simp_all add: is_upper_def is_lower_def ascii_uppercase_def ascii_lowercase_def)

lemma word_rest_None: "word_rest s = None \<longleftrightarrow> (case s of [] \<Rightarrow> True | d # _ \<Rightarrow> \<not> is_lower d)"
  by (cases s) (auto simp: word_rest_def)

lemma word_rest_Some:
  "word_rest s = Some x \<longleftrightarrow> (s \<noteq> [] \<and> is_lower (hd s) \<and> x = dropWhile is_lower s)"
  by (cases s) (auto simp: word_rest_def)

lemma between_dropWhile:
  "suffix t s \<Longrightarrow> suffix (dropWhile P s) t \<Longrightarrow> t = dropWhile P s \<or> (t \<noteq> [] \<and> P (hd t))"
proof (induction s)
  case Nil
  then show ?case by simp
next
  case (Cons c cs)
  show ?case
  proof (cases "t = c # cs")
    case True
    then show ?thesis by (cases "P c") auto
  next
    case False
    with Cons.prems(1) have t: "suffix t cs" by (auto simp: suffix_Cons)
    show ?thesis
    proof (cases "P c")
      case True
      with Cons.prems(2) have "suffix (dropWhile P cs) t" by simp
      from Cons.IH [OF t this] True show ?thesis by simp
    next
      case False
      with Cons.prems(2) have "suffix (c # cs) t" by simp
      with t have "suffix (c # cs) cs" using suffix_order.trans by blast
      then have "length (c # cs) \<le> length cs" by (rule suffix_length_le)
      then show ?thesis by simp
    qed
  qed
qed

text \<open>The part of the entity pattern after the first capitalized word: a separator and a second word.\<close>

lemma second_eval:
  "rmatch False (Seq (Lit [sep]) (Seq (Ch (OneOf ascii_uppercase)) (Greedy (OneOf ascii_lowercase) 1 None)))
      t gs k =
   (case t of
      a # u # t2 \<Rightarrow>
        if a = sep \<and> is_upper u then rep_greedy (OneOf ascii_lowercase) 1 None t2 (\<lambda>s'. k s' gs)
        else None
    | _ \<Rightarrow> None)"
  by (auto split: list.splits simp: is_upper_def)

lemma second_lower:
  assumes "t \<noteq> []" "is_lower (hd t)" "\<not> is_lower sep"
  shows "rmatch False (Seq (Lit [sep]) (Seq (Ch (OneOf ascii_uppercase))
           (Greedy (OneOf ascii_lowercase) 1 None))) t gs k = None"
  using assms unfolding second_eval by (auto split: list.splits)

lemma second_some:
  assumes "x = sep # u # x2" "is_upper u" "word_rest x2 = Some y" "k y gs = Some r"
  shows "rmatch False (Seq (Lit [sep]) (Seq (Ch (OneOf ascii_uppercase))
           (Greedy (OneOf ascii_lowercase) 1 None))) x gs k = Some r"
proof -
  from assms(3) have "x2 \<noteq> []" "is_lower (hd x2)" "y = dropWhile is_lower x2"
    by (auto simp: word_rest_Some)
  then have "1 \<le> length (takeWhile is_lower x2)" "k (dropWhile is_lower x2) gs = Some r"
    using assms(4) by (cases x2; simp)+
  then have "rep_greedy (OneOf ascii_lowercase) 1 None x2 (\<lambda>s'. k s' gs) = Some r"
    by (intro rep_greedy_munch) simp_all
  with assms(1,2) show ?thesis unfolding second_eval by simp
qed

lemma second_none:
  assumes "\<not> (\<exists>u x2 y. x = sep # u # x2 \<and> is_upper u \<and> word_rest x2 = Some y)"
  shows "rmatch False (Seq (Lit [sep]) (Seq (Ch (OneOf ascii_uppercase))
           (Greedy (OneOf ascii_lowercase) 1 None))) x gs k = None"
proof (cases x)
  case Nil
  then show ?thesis unfolding second_eval by simp
next
  case (Cons a x1)
  show ?thesis
  proof (cases x1)
    case Nil
    with Cons show ?thesis unfolding second_eval by simp
  next
    case (Cons u x2)
    show ?thesis
    proof (cases "a = sep \<and> is_upper u")
      case True
      with assms \<open>x = a # x1\<close> Cons have "word_rest x2 = None" by (cases "word_rest x2") auto
      then have "rep_greedy (OneOf ascii_lowercase) (Suc 0) None x2 (\<lambda>s'. k s' gs) = None"
        by (intro rep_greedy_none) (auto simp: word_rest_None is_lower_def split: list.splits)
      with True \<open>x = a # x1\<close> Cons show ?thesis unfolding second_eval by simp
    next
      case False
      with \<open>x = a # x1\<close> Cons show ?thesis unfolding second_eval by auto
    qed
  qed
qed

text \<open>A capitalized word followed by a separator and a second word, from the text after the capital.\<close>

lemma pair_some:
  assumes "word_rest s1 = Some x" "x = sep # u # x2" "is_upper u" "word_rest x2 = Some y"
    "k y gs = Some r"
  shows "rep_greedy (OneOf ascii_lowercase) 1 None s1
           (\<lambda>s'. rmatch False (Seq (Lit [sep]) (Seq (Ch (OneOf ascii_uppercase))
                     (Greedy (OneOf ascii_lowercase) 1 None))) s' gs k) = Some r"
proof -
  from assms(1) have s1: "s1 \<noteq> []" "is_lower (hd s1)" "x = dropWhile is_lower s1"
    by (auto simp: word_rest_Some)
  then have "1 \<le> length (takeWhile is_lower s1)" by (cases s1) auto
  moreover have "rmatch False (Seq (Lit [sep]) (Seq (Ch (OneOf ascii_uppercase))
                     (Greedy (OneOf ascii_lowercase) 1 None))) (dropWhile is_lower s1) gs k = Some r"
    using second_some [of x sep u x2 y k gs r] assms(2-5) s1(3) by simp
  ultimately show ?thesis by (intro rep_greedy_munch) simp_all
qed

lemma pair_none:
  assumes "word_rest s1 = Some x" "\<not> is_lower sep"
    "\<not> (\<exists>u x2 y. x = sep # u # x2 \<and> is_upper u \<and> word_rest x2 = Some y)"
  shows "rep_greedy (OneOf ascii_lowercase) 1 None s1
           (\<lambda>s'. rmatch False (Seq (Lit [sep]) (Seq (Ch (OneOf ascii_uppercase))
                     (Greedy (OneOf ascii_lowercase) 1 None))) s' gs k) = None"
proof (rule rep_greedy_fail)
  fix t assume "suffix t s1" "suffix (dropWhile (accepts (OneOf ascii_lowercase)) s1) t"
  then have "t = dropWhile is_lower s1 \<or> (t \<noteq> [] \<and> is_lower (hd t))"
    using between_dropWhile [of t s1 is_lower] by simp
  moreover from assms(1) have "x = dropWhile is_lower s1" by (simp add: word_rest_Some)
  ultimately show "rmatch False (Seq (Lit [sep]) (Seq (Ch (OneOf ascii_uppercase))
                     (Greedy (OneOf ascii_lowercase) 1 None))) t gs k = None"
    using second_none [OF assms(3)] second_lower [OF _ _ assms(2)] by auto
qed


lemma second_word_rest_Some:
  "second_word_rest x = Some y \<longleftrightarrow>
     (\<exists>sep u x2. x = sep # u # x2 \<and> (sep = CHR '' '' \<or> sep = CHR ''.'') \<and> is_upper u
        \<and> word_rest x2 = Some y)"
  by (auto simp: second_word_rest_def split: list.splits)

lemma entity_alternatives:
  fixes K :: cont
  assumes total: "\<And>s' gs'. K s' gs' \<noteq> None"
  shows "rmatch False
           (Alt (seqs (capitalized @ [Lit '' ''] @ capitalized))
             (Alt (seqs (capitalized @ [Lit ''.''] @ capitalized))
               (Alt (seqs [Ch (OneOf ascii_uppercase), Greedy (OneOf ascii_uppercase) 1 None])
                    (seqs capitalized)))) s [] K =
         (case entity_rest s of None \<Rightarrow> None | Some r \<Rightarrow> K r [])"
proof (cases s)
  case Nil
  then show ?thesis by (simp add: entity_rest_def capitalized_def)
next
  case (Cons c s1)
  let ?sw = "\<lambda>sep s'. rmatch False (Seq (Lit [sep]) (Seq (Ch (OneOf ascii_uppercase))
                     (Greedy (OneOf ascii_lowercase) 1 None))) s' [] K"
  let ?pair = "\<lambda>sep. rep_greedy (OneOf ascii_lowercase) 1 None s1 (?sw sep)"
  let ?word = "rep_greedy (OneOf ascii_lowercase) 1 None s1 (\<lambda>s'. K s' [])"
  let ?acro = "rep_greedy (OneOf ascii_uppercase) 1 None s1 (\<lambda>s'. K s' [])"
  show ?thesis
  proof (cases "is_upper c")
    case False
    with Cons show ?thesis
      by (simp add: entity_rest_def capitalized_def is_upper_def)
  next
    case True
    have alt: "rmatch False (Alt r1 r2) t gs k =
                 (case rmatch False r1 t gs k of Some r \<Rightarrow> Some r | None \<Rightarrow> rmatch False r2 t gs k)"
      for r1 r2 t gs k by simp
    have p1: "rmatch False (seqs (capitalized @ [Lit [sep]] @ capitalized)) (c # s1) [] K = ?pair sep"
      for sep using True by (simp add: capitalized_def is_upper_def)
    have p3: "rmatch False (seqs [Ch (OneOf ascii_uppercase), Greedy (OneOf ascii_uppercase) 1 None])
                (c # s1) [] K = ?acro"
      using True by (simp add: is_upper_def)
    have p4: "rmatch False (seqs capitalized) (c # s1) [] K = ?word"
      using True by (simp add: capitalized_def is_upper_def)
    have unfold: "rmatch False
           (Alt (seqs (capitalized @ [Lit '' ''] @ capitalized))
             (Alt (seqs (capitalized @ [Lit ''.''] @ capitalized))
               (Alt (seqs [Ch (OneOf ascii_uppercase), Greedy (OneOf ascii_uppercase) 1 None])
                    (seqs capitalized)))) s [] K =
         (case ?pair (CHR '' '') of
            Some r \<Rightarrow> Some r
          | None \<Rightarrow> (case ?pair (CHR ''.'') of
               Some r \<Rightarrow> Some r
             | None \<Rightarrow> (case ?acro of Some r \<Rightarrow> Some r | None \<Rightarrow> ?word)))"
      unfolding Cons alt p1 p3 p4 ..
    show ?thesis
    proof (cases "word_rest s1")
      case None
      then have nl: "case s1 of [] \<Rightarrow> True | d # _ \<Rightarrow> \<not> accepts (OneOf ascii_lowercase) d"
        by (auto simp: word_rest_None is_lower_def split: list.splits)
      have p: "?pair sep = None" for sep
        using nl by (simp add: rep_greedy_none del: rmatch.simps)
      have w: "?word = None"
        using nl by (simp add: rep_greedy_none)
      have a: "?acro = (if takeWhile is_upper s1 = [] then None else K (dropWhile is_upper s1) [])"
      proof (cases "takeWhile is_upper s1 = []")
        case True
        then have "case s1 of [] \<Rightarrow> True | d # _ \<Rightarrow> \<not> accepts (OneOf ascii_uppercase) d"
          by (auto simp: is_upper_def takeWhile_eq_Nil_iff split: list.splits)
        then show ?thesis using True by (simp add: rep_greedy_none)
      next
        case False
        obtain r where r: "K (dropWhile is_upper s1) [] = Some r"
          using total [of "dropWhile is_upper s1" "[]"] by auto
        from False have "1 \<le> length (takeWhile is_upper s1)"
          by (cases "takeWhile is_upper s1") auto
        with r have "?acro = Some r" by (intro rep_greedy_munch) simp_all
        with r False show ?thesis by simp
      qed
      show ?thesis
        unfolding unfold p w a using None True Cons total
        by (auto simp: entity_rest_def split: option.splits)
    next
      case (Some x)
      then have s1: "s1 \<noteq> []" "is_lower (hd s1)" "x = dropWhile is_lower s1"
        by (auto simp: word_rest_Some)
      have a: "?acro = None"
      proof -
        from s1 have "case s1 of [] \<Rightarrow> True | d # _ \<Rightarrow> \<not> accepts (OneOf ascii_uppercase) d"
          using upper_not_lower by (cases s1) (auto simp: is_upper_def)
        then show ?thesis by (simp add: rep_greedy_none)
      qed
      obtain rx where rx: "K x [] = Some rx" using total [of x "[]"] by auto
      have w: "?word = Some rx"
        using s1 rx by (intro rep_greedy_munch) (cases s1; simp)+
      show ?thesis
      proof (cases "second_word_rest x")
        case None
        then have no: "\<not> (\<exists>u x2 y. x = sep # u # x2 \<and> is_upper u \<and> word_rest x2 = Some y)"
          if "sep = CHR '' '' \<or> sep = CHR ''.''" for sep
          using that by (auto simp: second_word_rest_def)
        have "?pair (CHR '' '') = None" "?pair (CHR ''.'') = None"
          using pair_none [OF Some _ no, of _ "[]" K] by simp_all
        then show ?thesis
          unfolding unfold a w using Some None True Cons rx
          by (simp add: entity_rest_def)
      next
        case (Some y)
        then obtain sep u x2 where x: "x = sep # u # x2" "sep = CHR '' '' \<or> sep = CHR ''.''"
          "is_upper u" "word_rest x2 = Some y"
          by (auto simp: second_word_rest_Some)
        obtain ry where ry: "K y [] = Some ry" using total [of y "[]"] by auto
        have hit: "?pair sep = Some ry"
          using pair_some [of s1 x sep u x2 y K "[]" ry] \<open>word_rest s1 = Some x\<close> x ry by simp
        have "(case ?pair (CHR '' '') of Some r \<Rightarrow> Some r | None \<Rightarrow> ?pair (CHR ''.'')) = Some ry"
        proof (cases "sep = CHR '' ''")
          case True
          with hit show ?thesis by simp
        next
          case False
          with x have dot: "sep = CHR ''.''" by simp
          have "\<not> (\<exists>u x2 y. x = CHR '' '' # u # x2 \<and> is_upper u \<and> word_rest x2 = Some y)"
            using x(1) dot by simp
          from pair_none [OF \<open>word_rest s1 = Some x\<close> _ this, of "[]" K]
          have "?pair (CHR '' '') = None" by simp
          with hit dot show ?thesis by simp
        qed
        then have "(case ?pair (CHR '' '') of
            Some r \<Rightarrow> Some r
          | None \<Rightarrow> (case ?pair (CHR ''.'') of
               Some r \<Rightarrow> Some r
             | None \<Rightarrow> (case ?acro of Some r \<Rightarrow> Some r | None \<Rightarrow> ?word))) = Some ry"
          by (auto split: option.splits)
        then show ?thesis
          unfolding unfold using \<open>word_rest s1 = Some x\<close> Some True Cons ry
          by (simp add: entity_rest_def)
      qed
    qed
  qed
qed


lemma entity_body:
  "body entity_pattern =
     Group (Alt (seqs (capitalized @ [Lit '' ''] @ capitalized))
             (Alt (seqs (capitalized @ [Lit ''.''] @ capitalized))
               (Alt (seqs [Ch (OneOf ascii_uppercase), Greedy (OneOf ascii_uppercase) 1 None])
                    (seqs capitalized))))"
  by (simp only: entity_pattern_def alts.simps pattern.simps)

lemma match_at_entity:
  "match_at entity_pattern s =
     (case entity_rest s of
        None \<Rightarrow> None
      | Some r \<Rightarrow> Some (take (length s - length r) s, [take (length s - length r) s]))"
proof -
  have ic: "ignorecase entity_pattern = False" by (simp add: entity_pattern_def)
  have group: "rmatch b (Group r) t gs k =
                 rmatch b r t gs (\<lambda>s' gs'. k s' (gs' @ [take (length t - length s') t]))"
    for b r t gs k by simp
  have "rmatch False (body entity_pattern) s [] (\<lambda>s' gs. Some (s', gs)) =
          (case entity_rest s of
             None \<Rightarrow> None
           | Some r \<Rightarrow> Some (r, [take (length s - length r) s]))"
    unfolding entity_body group
    by (subst entity_alternatives) (simp_all split: option.splits)
  then show ?thesis
    unfolding match_at_def ic by (simp split: option.splits)
qed

lemma word_rest_shorter: "word_rest s = Some x \<Longrightarrow> length x < length s"
  by (cases s) (auto simp: word_rest_Some intro: le_imp_less_Suc length_dropWhile_le)

lemma word_rest_suffix: "word_rest s = Some x \<Longrightarrow> suffix x s"
  by (auto simp: word_rest_Some intro: suffix_dropWhile)

lemma second_word_rest_shorter: "second_word_rest x = Some y \<Longrightarrow> length y < length x"
  by (auto simp: second_word_rest_Some dest!: word_rest_shorter)

lemma second_word_rest_suffix: "second_word_rest x = Some y \<Longrightarrow> suffix y x"
  by (auto simp: second_word_rest_Some dest!: word_rest_suffix intro: suffix_ConsI)

lemma entity_rest_suffix:
  assumes "entity_rest s = Some r"
  shows "suffix r s \<and> length r < length s"
proof -
  from assms obtain c s1 where s: "s = c # s1" by (cases s) (auto simp: entity_rest_def)
  have "suffix r s1"
  proof (cases "word_rest s1")
    case None
    with assms s have "r = dropWhile is_upper s1"
      by (auto simp: entity_rest_def split: if_splits)
    then show ?thesis by (simp add: suffix_dropWhile)
  next
    case (Some x)
    with assms s have "r = x \<or> second_word_rest x = Some r"
      by (auto simp: entity_rest_def split: if_splits option.splits)
    with Some show ?thesis
      using word_rest_suffix second_word_rest_suffix suffix_order.trans by blast
  qed
  with s show ?thesis
    by (auto intro: suffix_ConsI dest: suffix_length_le)
qed

lemma finditer_from_drop: "finditer_from p k s = finditer_from p 0 (drop k s)"
proof (induction p k s rule: finditer_from.induct)
  case (1 p k)
  then show ?case by simp
next
  case (2 p k c cs)
  then show ?case by simp
next
  case (3 p c cs)
  then show ?case by simp
qed

lemma entities_Nil [simp]: "entities [] = 0"
  by (simp add: entities_def findall_def finditer_def)

lemma entities_Cons:
  "entities (c # s) = (case entity_rest (c # s) of None \<Rightarrow> entities s | Some r \<Rightarrow> Suc (entities r))"
proof (cases "entity_rest (c # s)")
  case None
  then show ?thesis
    by (simp add: entities_def findall_def finditer_def match_at_entity)
next
  case (Some r)
  from entity_rest_suffix [OF Some] have "suffix r (c # s)" and len: "length r < length (c # s)"
    by simp_all
  then obtain w where "c # s = w @ r" unfolding suffix_def by blast
  with len have w: "c # s = w @ r" "w \<noteq> []" by auto
  then obtain w' where w': "w = c # w'" "s = w' @ r" by (cases w) auto
  have "finditer_from entity_pattern (length (c # s) - length r - 1) s
          = finditer_from entity_pattern 0 r"
    using w' by (subst finditer_from_drop) simp
  with Some show ?thesis
    by (simp add: entities_def findall_def finditer_def match_at_entity)
qed

lemma entities_not_upper: "\<not> is_upper c \<Longrightarrow> entities (c # s) = entities s"
  by (simp add: entities_Cons entity_rest_def)

lemma entities_skip: "list_all (\<lambda>c. \<not> is_upper c) l \<Longrightarrow> entities (l @ x) = entities x"
  by (induction l) (simp_all add: entities_not_upper)

lemma entities_dropWhile_lower: "entities (dropWhile is_lower s) = entities s"
proof -
  have "list_all (\<lambda>c. \<not> is_upper c) (takeWhile is_lower s)"
    using upper_not_lower by (auto simp: list_all_iff dest: set_takeWhileD)
  from entities_skip [OF this, of "dropWhile is_lower s"] show ?thesis by simp
qed

lemma entities_word_rest: "word_rest s = Some x \<Longrightarrow> entities x = entities s"
  by (auto simp: word_rest_Some entities_dropWhile_lower)

lemma entity_rest_word:
  "is_upper c \<Longrightarrow> word_rest s1 = Some x \<Longrightarrow>
     entity_rest (c # s1) = (case second_word_rest x of Some y \<Rightarrow> Some y | None \<Rightarrow> Some x)"
  by (simp add: entity_rest_def)

lemma entity_rest_no_word:
  "is_upper c \<Longrightarrow> word_rest s1 = None \<Longrightarrow>
     entity_rest (c # s1) = (if takeWhile is_upper s1 = [] then None else Some (dropWhile is_upper s1))"
  by (simp add: entity_rest_def)

text \<open>A capitalized word in front of a text adds at most one entity and removes none.\<close>

lemma word_shift:
  "is_upper c \<Longrightarrow> word_rest s1 = Some x \<Longrightarrow>
     entities x \<le> entities (c # s1) \<and> entities (c # s1) \<le> Suc (entities x)"
proof (induction "length x" arbitrary: c s1 x rule: less_induct)
  case less
  show ?case
  proof (cases "second_word_rest x")
    case None
    with less.prems show ?thesis
      by (simp add: entities_Cons entity_rest_word)
  next
    case (Some y)
    then obtain sep u x2 where x: "x = sep # u # x2" "sep = CHR '' '' \<or> sep = CHR ''.''"
      "is_upper u" "word_rest x2 = Some y"
      by (auto simp: second_word_rest_Some)
    have "length y < length x" using Some by (rule second_word_rest_shorter)
    from less.hyps [OF this x(3,4)]
    have "entities y \<le> entities (u # x2)" "entities (u # x2) \<le> Suc (entities y)" by auto
    moreover have "entities x = entities (u # x2)"
      using x(1,2) by (auto simp: entities_not_upper)
    moreover have "entities (c # s1) = Suc (entities y)"
      using less.prems Some by (simp add: entities_Cons entity_rest_word)
    ultimately show ?thesis by simp
  qed
qed


lemma dropWhile_upper_of_lower: "word_rest s = Some x \<Longrightarrow> dropWhile is_upper s = s"
  using upper_not_lower by (cases s) (auto simp: word_rest_Some)

lemma entities_prepend: "entities s \<le> entities (c # s)"
proof (cases "is_upper c")
  case False
  then show ?thesis by (simp add: entities_not_upper)
next
  case True
  show ?thesis
  proof (cases "word_rest s")
    case (Some x)
    from word_shift [OF True Some] entities_word_rest [OF Some] show ?thesis by simp
  next
    case None
    show ?thesis
    proof (cases "takeWhile is_upper s = []")
      case True
      with \<open>is_upper c\<close> None show ?thesis
        by (simp add: entities_Cons entity_rest_no_word)
    next
      case False
      then obtain u s2 where s: "s = u # s2" "is_upper u"
        by (cases s) (auto split: if_splits)
      have front: "entities (c # s) = Suc (entities (dropWhile is_upper s2))"
        using \<open>is_upper c\<close> None False s by (simp add: entities_Cons entity_rest_no_word)
      show ?thesis
      proof (cases "word_rest s2")
        case (Some x2)
        from word_shift [OF s(2) Some] have "entities (u # s2) \<le> Suc (entities x2)" by simp
        moreover have "entities (dropWhile is_upper s2) = entities x2"
          using dropWhile_upper_of_lower [OF Some] entities_word_rest [OF Some] by simp
        ultimately show ?thesis using front s(1) by simp
      next
        case None
        show ?thesis
        proof (cases "takeWhile is_upper s2 = []")
          case True
          then have "dropWhile is_upper s2 = s2"
            by (cases s2) (auto split: if_splits)
          moreover have "entities (u # s2) = entities s2"
            using s(2) None True by (simp add: entities_Cons entity_rest_no_word)
          ultimately show ?thesis using front s(1) by simp
        next
          case False
          with s(2) None have "entities (u # s2) = Suc (entities (dropWhile is_upper s2))"
            by (simp add: entities_Cons entity_rest_no_word)
          with front s(1) show ?thesis by simp
        qed
      qed
    qed
  qed
qed

lemma dropWhile_snoc:
  "dropWhile P (s @ [d]) = (if dropWhile P s = [] then dropWhile P [d] else dropWhile P s @ [d])"
  by (induction s) auto

lemma takeWhile_snoc_nonempty: "takeWhile P s \<noteq> [] \<Longrightarrow> takeWhile P (s @ [d]) \<noteq> []"
  by (cases s) (auto split: if_splits)

lemma word_rest_snoc:
  "word_rest s = Some x \<Longrightarrow>
     word_rest (s @ [d]) = Some (if x = [] then dropWhile is_lower [d] else x @ [d])"
  by (auto simp: word_rest_def dropWhile_snoc takeWhile_snoc_nonempty split: if_splits)

lemma word_rest_snoc_None:
  "word_rest s = None \<Longrightarrow> s \<noteq> [] \<Longrightarrow> word_rest (s @ [d]) = None"
  by (cases s) (auto simp: word_rest_def split: if_splits)

lemma entities_lone: "entities [u] = 0"
  by (simp add: entities_Cons entity_rest_def word_rest_def split: option.splits)

lemma second_word_rest_snoc:
  assumes "second_word_rest x = Some y"
  shows "second_word_rest (x @ [d]) = Some (if y = [] then dropWhile is_lower [d] else y @ [d])"
proof -
  from assms obtain sep u x2 where "x = sep # u # x2" "sep = CHR '' '' \<or> sep = CHR ''.''"
    "is_upper u" "word_rest x2 = Some y"
    by (auto simp: second_word_rest_Some)
  then show ?thesis
    using word_rest_snoc [of x2 y d] by (auto simp: second_word_rest_def)
qed

lemma second_word_rest_late:
  assumes "second_word_rest x = None" "second_word_rest (x @ [d]) = Some y"
  shows "entities x = 0"
proof -
  from assms(2) obtain sep u x2 where x: "x @ [d] = sep # u # x2" "sep = CHR '' '' \<or> sep = CHR ''.''"
    "is_upper u" "word_rest x2 = Some y"
    by (auto simp: second_word_rest_Some)
  show ?thesis
  proof (cases x)
    case Nil
    then show ?thesis by simp
  next
    case (Cons a x1)
    with x(1) have a: "a = sep" "x1 @ [d] = u # x2" by auto
    show ?thesis
    proof (cases x1)
      case Nil
      with Cons a x(2) show ?thesis by (auto simp: entities_not_upper)
    next
      case (Cons b x3)
      with a have b: "b = u" "x3 @ [d] = x2" by auto
      have "x3 = []"
      proof (rule ccontr)
        assume "x3 \<noteq> []"
        with b x(4) have "is_lower (hd x3)" by (cases x3) (auto simp: word_rest_Some)
        with \<open>x3 \<noteq> []\<close> have "word_rest x3 \<noteq> None" by (cases x3) (auto simp: word_rest_None)
        with assms(1) \<open>x = a # x1\<close> Cons a b x(2,3) show False
          by (auto simp: second_word_rest_def)
      qed
      with \<open>x = a # x1\<close> Cons a x(2) show ?thesis
        by (auto simp: entities_not_upper entities_lone)
    qed
  qed
qed

text \<open>
  One more character at the end keeps an entity at the start, and lets the text after it
  grow by that character unless that text held no entity.
\<close>

lemma entity_rest_snoc:
  assumes "entity_rest s = Some r"
  shows "\<exists>r'. entity_rest (s @ [d]) = Some r' \<and> (r' = r @ [d] \<or> entities r = 0)"
proof -
  from assms obtain c s1 where s: "s = c # s1" and c: "is_upper c"
    by (cases s) (auto simp: entity_rest_def split: if_splits)
  show ?thesis
  proof (cases "word_rest s1")
    case None
    with assms s c have up: "takeWhile is_upper s1 \<noteq> []" and r: "r = dropWhile is_upper s1"
      by (auto simp: entity_rest_no_word split: if_splits)
    then have "s1 \<noteq> []" by auto
    with None have "word_rest (s1 @ [d]) = None" by (rule word_rest_snoc_None)
    with s c up have "entity_rest (s @ [d]) = Some (dropWhile is_upper (s1 @ [d]))"
      by (simp add: entity_rest_no_word takeWhile_snoc_nonempty)
    moreover have "dropWhile is_upper (s1 @ [d]) = (if r = [] then dropWhile is_upper [d] else r @ [d])"
      unfolding r by (rule dropWhile_snoc)
    then have "dropWhile is_upper (s1 @ [d]) = r @ [d] \<or> entities r = 0"
      by (cases "r = []") simp_all
    ultimately show ?thesis by blast
  next
    case (Some x)
    let ?x' = "if x = [] then dropWhile is_lower [d] else x @ [d]"
    have w': "word_rest (s1 @ [d]) = Some ?x'" using Some by (rule word_rest_snoc)
    have e': "entity_rest (s @ [d]) =
                (case second_word_rest ?x' of Some y \<Rightarrow> Some y | None \<Rightarrow> Some ?x')"
      using s c w' by (simp add: entity_rest_word)
    show ?thesis
    proof (cases "second_word_rest x")
      case (Some y)
      with assms s c \<open>word_rest s1 = Some x\<close> have r: "r = y" by (simp add: entity_rest_word)
      from Some have "x \<noteq> []" by (auto simp: second_word_rest_def)
      with e' second_word_rest_snoc [OF Some, of d] r show ?thesis by auto
    next
      case None
      with assms s c \<open>word_rest s1 = Some x\<close> have r: "r = x" by (simp add: entity_rest_word)
      show ?thesis
      proof (cases "x = []")
        case True
        with r e' show ?thesis by (auto split: option.splits)
      next
        case False
        show ?thesis
        proof (cases "second_word_rest (x @ [d])")
          case None
          with e' False r show ?thesis by simp
        next
          case (Some y')
          from second_word_rest_late [OF \<open>second_word_rest x = None\<close> Some] e' False r Some
          show ?thesis by simp
        qed
      qed
    qed
  qed
qed

lemma entities_append: "entities s \<le> entities (s @ [d])"
proof (induction "length s" arbitrary: s rule: less_induct)
  case less
  show ?case
  proof (cases s)
    case Nil
    then show ?thesis by simp
  next
    case (Cons c s1)
    show ?thesis
    proof (cases "entity_rest s")
      case None
      with Cons have "entities s = entities s1" by (simp add: entities_Cons)
      also have "\<dots> \<le> entities (s1 @ [d])" using less Cons by simp
      also have "\<dots> \<le> entities (c # s1 @ [d])" by (rule entities_prepend)
      finally show ?thesis using Cons by simp
    next
      case (Some r)
      from entity_rest_snoc [OF Some, of d] obtain r' where
        r': "entity_rest (s @ [d]) = Some r'" "r' = r @ [d] \<or> entities r = 0" by blast
      have "length r < length s" using entity_rest_suffix [OF Some] by simp
      then have "entities r \<le> entities (r @ [d])" by (rule less)
      with r'(2) have "entities r \<le> entities r'" by auto
      moreover have "entities s = Suc (entities r)" using Some Cons by (simp add: entities_Cons)
      moreover have "entities (s @ [d]) = Suc (entities r')" using r'(1) Cons by (simp add: entities_Cons)
      ultimately show ?thesis by simp
    qed
  qed
qed

lemma entities_sublist: "sublist s q \<Longrightarrow> entities s \<le> entities q"
proof -
  assume "sublist s q"
  then obtain ps ss where q: "q = ps @ s @ ss" by (auto simp: sublist_def)
  have "entities s \<le> entities (s @ ss)"
  proof (induction ss rule: rev_induct)
    case Nil
    then show ?case by simp
  next
    case (snoc d ss)
    have "entities (s @ ss) \<le> entities ((s @ ss) @ [d])" by (rule entities_append)
    with snoc show ?case by simp
  qed
  also have "\<dots> \<le> entities (ps @ s @ ss)"
  proof (induction ps)
    case Nil
    then show ?case by simp
  next
    case (Cons c ps)
    have "entities (ps @ s @ ss) \<le> entities (c # ps @ s @ ss)" by (rule entities_prepend)
    with Cons show ?case by simp
  qed
  finally show ?thesis using q by simp
qed


subsection \<open>Counting occurrences\<close>

lemma count_from_short: "length s < length sub \<Longrightarrow> count_from sub k s = 0"
proof (induction s arbitrary: k)
  case Nil
  then show ?case by simp
next
  case (Cons c cs)
  then have "\<not> prefix sub (c # cs)" by (auto dest: prefix_length_le)
  with Cons show ?case by (cases k) auto
qed

lemma count_from_skip:
  assumes "sub \<noteq> []"
  shows "(\<forall>k. count_from sub (Suc k) s \<le> count_from sub k s)
       \<and> (\<forall>k < length sub. count_from sub 0 s \<le> Suc (count_from sub k s))"
proof (induction s)
  case Nil
  then show ?case by simp
next
  case (Cons c t)
  then have drop1: "\<And>k. count_from sub (Suc k) t \<le> count_from sub k t"
    and one: "\<And>k. k < length sub \<Longrightarrow> count_from sub 0 t \<le> Suc (count_from sub k t)"
    by auto
  have anti: "count_from sub j t \<le> count_from sub i t" if "i \<le> j" for i j
    using that
  proof (induction j)
    case 0
    then show ?case by simp
  next
    case (Suc j)
    show ?case
    proof (cases "i = Suc j")
      case True
      then show ?thesis by simp
    next
      case False
      with Suc.prems have "i \<le> j" by simp
      with Suc.IH drop1 [of j] show ?thesis by (meson order_trans)
    qed
  qed
  have n: "length sub - 1 < length sub" using assms by (cases sub) auto
  have p1: "count_from sub (Suc k) (c # t) \<le> count_from sub k (c # t)" for k
  proof (cases k)
    case 0
    then show ?thesis using one [OF n] by simp
  next
    case (Suc k')
    then show ?thesis using drop1 [of k'] by simp
  qed
  have p2: "count_from sub 0 (c # t) \<le> Suc (count_from sub k (c # t))" if "k < length sub" for k
  proof (cases k)
    case 0
    then show ?thesis by simp
  next
    case (Suc k')
    with that have k': "k' \<le> length sub - 1" "k' < length sub" by auto
    show ?thesis
      using Suc anti [OF k'(1)] one [OF k'(2)] by simp
  qed
  from p1 p2 show ?case by blast
qed

lemma count_prepend: "sub \<noteq> [] \<Longrightarrow> count s sub \<le> count (c # s) sub"
  using count_from_skip [of sub "c # s"] by (auto simp: count_def dest: spec [of _ 0])

lemma count_from_append: "count_from sub k s \<le> count_from sub k (s @ [d])"
proof (induction s arbitrary: k)
  case Nil
  then show ?case by simp
next
  case (Cons c cs)
  show ?case
  proof (cases k)
    case (Suc k')
    then show ?thesis using Cons [of k'] by simp
  next
    case 0
    show ?thesis
    proof (cases "prefix sub (c # cs)")
      case True
      then have "prefix sub (c # cs @ [d])"
        using prefix_order.trans [OF True, of "(c # cs) @ [d]"] by simp
      with True 0 Cons [of "length sub - 1"] show ?thesis by simp
    next
      case False
      show ?thesis
      proof (cases "prefix sub (c # cs @ [d])")
        case True
        with False have "sub = c # cs @ [d]"
          by (metis append_Cons prefix_snoc)
        then have "count_from sub 0 cs = 0" by (intro count_from_short) simp
        with False 0 show ?thesis by simp
      next
        case no: False
        with False 0 Cons [of 0] show ?thesis by simp
      qed
    qed
  qed
qed

lemma count_sublist:
  assumes "sub \<noteq> []" "sublist s q"
  shows "count s sub \<le> count q sub"
proof -
  from assms(2) obtain ps ss where q: "q = ps @ s @ ss" by (auto simp: sublist_def)
  have "count s sub \<le> count (s @ ss) sub"
  proof (induction ss rule: rev_induct)
    case Nil
    then show ?case by simp
  next
    case (snoc d ss)
    have "count (s @ ss) sub \<le> count ((s @ ss) @ [d]) sub"
      unfolding count_def by (rule count_from_append)
    with snoc show ?case by simp
  qed
  also have "\<dots> \<le> count (ps @ s @ ss) sub"
  proof (induction ps)
    case Nil
    then show ?case by simp
  next
    case (Cons c ps)
    from count_prepend [OF assms(1), of "ps @ s @ ss" c] Cons show ?case by simp
  qed
  finally show ?thesis using q by simp
qed

lemma length_filter_mono:
  "(\<And>x. x \<in> set xs \<Longrightarrow> P x \<Longrightarrow> Q x) \<Longrightarrow> length (filter P xs) \<le> length (filter Q xs)"
  by (induction xs) auto

lemma keywords_sublist:
  assumes "sublist s q"
  shows "length (filter (\<lambda>word. sublist word (lower s)) ks)
           \<le> length (filter (\<lambda>word. sublist word (lower q)) ks)"
proof (rule length_filter_mono)
  fix w assume "sublist w (lower s)"
  moreover have "sublist (lower s) (lower q)"
    unfolding lower_def using assms by (rule map_mono_sublist)
  ultimately show "sublist w (lower q)" by (rule sublist_order.order.trans)
qed

text \<open>
  C9. For every query \<open>q\<close> and every contiguous substring \<open>s\<close> of it, the
  complexity score of \<open>q\<close> is at least that of \<open>s\<close>, and so is each of the three
  counts it is computed from: the entities found, the aspects and the complexity keywords.
\<close>

theorem complexity_score_monotone:
  assumes "sublist s q"
  shows "complexity_score (analyze_question_complexity s)
           \<le> complexity_score (analyze_question_complexity q)
       \<and> entity_count (analyze_question_complexity s) \<le> entity_count (analyze_question_complexity q)
       \<and> aspect_count (analyze_question_complexity s) \<le> aspect_count (analyze_question_complexity q)
       \<and> complexity_keyword_count (analyze_question_complexity s)
           \<le> complexity_keyword_count (analyze_question_complexity q)"
proof -
  have e: "length (findall entity_pattern s) \<le> length (findall entity_pattern q)"
    using entities_sublist [OF assms] by (simp add: entities_def)
  have a: "count s '','' + count s '';'' + count s ''and''
             \<le> count q '','' + count q '';'' + count q ''and''"
    using count_sublist [OF _ assms, of "'',''"] count_sublist [OF _ assms, of "'';''"]
      count_sublist [OF _ assms, of "''and''"] by simp
  have k: "length (filter (\<lambda>word. sublist word (lower s)) complexity_keywords)
             \<le> length (filter (\<lambda>word. sublist word (lower q)) complexity_keywords)"
    by (rule keywords_sublist [OF assms])
  have "real (length (findall entity_pattern s)) * 0.5
          + real (count s '','' + count s '';'' + count s ''and'') * 0.3
          + real (length (filter (\<lambda>word. sublist word (lower s)) complexity_keywords)) * 0.7
        \<le> real (length (findall entity_pattern q)) * 0.5
          + real (count q '','' + count q '';'' + count q ''and'') * 0.3
          + real (length (filter (\<lambda>word. sublist word (lower q)) complexity_keywords)) * 0.7"
    using e a k by (intro add_mono mult_right_mono) simp_all
  then have "min 1 ((real (length (findall entity_pattern s)) * 0.5
          + real (count s '','' + count s '';'' + count s ''and'') * 0.3
          + real (length (filter (\<lambda>word. sublist word (lower s)) complexity_keywords)) * 0.7) / 10)
        \<le> min 1 ((real (length (findall entity_pattern q)) * 0.5
          + real (count q '','' + count q '';'' + count q ''and'') * 0.3
          + real (length (filter (\<lambda>word. sublist word (lower q)) complexity_keywords)) * 0.7) / 10)"
    by (intro min.mono divide_right_mono) simp_all
  with e a k show ?thesis
    by (simp add: analyze_question_complexity_def Let_def)
qed

theorem complexity_score_monotone_witness:
  "sublist ''Compare IBM'' ''Compare IBM and Google, then analyze the trend''
   \<and> entity_count (analyze_question_complexity ''Compare IBM'') = 2
   \<and> entity_count (analyze_question_complexity ''Compare IBM and Google, then analyze the trend'') = 3
   \<and> complexity_score (analyze_question_complexity ''Compare IBM'')
       \<le> complexity_score (analyze_question_complexity ''Compare IBM and Google, then analyze the trend'')"
proof -
  have sub: "sublist ''Compare IBM'' ''Compare IBM and Google, then analyze the trend''"
    by code_simp
  have e1: "entity_count (analyze_question_complexity ''Compare IBM'') = 2" by code_simp
  have e2: "entity_count (analyze_question_complexity
              ''Compare IBM and Google, then analyze the trend'') = 3" by code_simp
  from complexity_score_monotone [OF sub] sub e1 e2 show ?thesis by simp
qed

end

